theory Spec2Isabelle
  imports Main "HOL-Library.Char_ord" "HOL-Library.List_Lexorder" "HOL-Library.Product_Lexorder"
begin

section \<open>Python values used by sortphotos.py\<close>

text \<open>
  The model follows the Python 3 reading of the script. A \<open>str\<close> is a \<^typ>\<open>string\<close>
  whose characters are the code points below 256. Every exception the script can raise is
  a value of \<open>error\<close>, and a function that may raise returns \<open>error + 'a\<close>.
\<close>

datatype error =
    ValueError
  | IndexError
  | KeyError
  | OverflowError
  | AttributeError
  | TypeError
  | OSError
  | SourceDirMissing

subsection \<open>String methods\<close>

definition py_isspace :: "char \<Rightarrow> bool" where
  \<comment> \<open>\<open>str.isspace\<close> on one code point below 256\<close>
  "py_isspace c = (c \<in> set [CHR 0x09, CHR 0x0A, CHR 0x0B, CHR 0x0C, CHR 0x0D,
                            CHR 0x1C, CHR 0x1D, CHR 0x1E, CHR 0x1F, CHR 0x20,
                            CHR 0x85, CHR 0xA0])"

definition py_strip :: "string \<Rightarrow> string" where
  \<comment> \<open>\<open>s.strip()\<close>\<close>
  "py_strip s = rev (dropWhile py_isspace (rev (dropWhile py_isspace s)))"

fun split_ws_from :: "string \<Rightarrow> string \<Rightarrow> string list" where
  "split_ws_from cur [] = (if cur = [] then [] else [cur])"
| "split_ws_from cur (c # cs) =
     (if py_isspace c then (if cur = [] then split_ws_from [] cs else cur # split_ws_from [] cs)
      else split_ws_from (cur @ [c]) cs)"

definition py_split :: "string \<Rightarrow> string list" where
  \<comment> \<open>\<open>s.split()\<close>: the maximal runs of non-whitespace\<close>
  "py_split s = split_ws_from [] s"

fun split_on_from :: "char \<Rightarrow> string \<Rightarrow> string \<Rightarrow> string list" where
  "split_on_from sep cur [] = [cur]"
| "split_on_from sep cur (c # cs) =
     (if c = sep then cur # split_on_from sep [] cs else split_on_from sep (cur @ [c]) cs)"

definition py_split_on :: "char \<Rightarrow> string \<Rightarrow> string list" where
  \<comment> \<open>\<open>s.split(sep)\<close> for a one-character separator: empty pieces are kept\<close>
  "py_split_on sep s = split_on_from sep [] s"

definition is_tz_sep :: "char \<Rightarrow> bool" where
  "is_tz_sep c = (c = CHR ''+'' \<or> c = CHR ''-'' \<or> c = CHR ''Z'')"

fun re_split_from :: "string \<Rightarrow> string \<Rightarrow> string list" where
  "re_split_from cur [] = [cur]"
| "re_split_from cur (c # cs) =
     (if is_tz_sep c then cur # [c] # re_split_from [] cs else re_split_from (cur @ [c]) cs)"

definition re_split_tz :: "string \<Rightarrow> string list" where
  \<comment> \<open>\<open>re.split('(\+|-|Z)', s)\<close>: the pieces between separators, each separator kept
      as a piece of its own because the pattern is a capturing group\<close>
  "re_split_tz s = re_split_from [] s"

subsection \<open>\<open>int(s)\<close> and \<open>str(n)\<close>\<close>

definition is_digit :: "char \<Rightarrow> bool" where
  "is_digit c = (CHR ''0'' \<le> c \<and> c \<le> CHR ''9'')"

definition digit_val :: "char \<Rightarrow> int" where
  "digit_val c = int (of_char c) - 48"

fun int_body_ok :: "string \<Rightarrow> bool" where
  \<comment> \<open>decimal digits, single underscores allowed between two digits\<close>
  "int_body_ok [] = False"
| "int_body_ok [c] = is_digit c"
| "int_body_ok (c # d # cs) =
     (is_digit c \<and> (if d = CHR ''_'' then int_body_ok cs else int_body_ok (d # cs)))"

fun digits_value :: "int \<Rightarrow> string \<Rightarrow> int" where
  "digits_value acc [] = acc"
| "digits_value acc (c # cs) =
     (if c = CHR ''_'' then digits_value acc cs else digits_value (acc * 10 + digit_val c) cs)"

definition py_int :: "string \<Rightarrow> error + int" where
  \<comment> \<open>\<open>int(s)\<close>: surrounding whitespace, an optional sign, then the digits; anything else
      raises ValueError\<close>
  "py_int s =
     (let t = py_strip s;
          neg = (t \<noteq> [] \<and> hd t = CHR ''-'');
          body = (if t \<noteq> [] \<and> (hd t = CHR ''-'' \<or> hd t = CHR ''+'') then tl t else t)
      in if int_body_ok body
         then Inr ((if neg then - 1 else 1) * digits_value 0 body)
         else Inl ValueError)"

definition digit_char :: "nat \<Rightarrow> char" where
  "digit_char d =
     (if d = 0 then CHR ''0'' else if d = 1 then CHR ''1'' else if d = 2 then CHR ''2''
      else if d = 3 then CHR ''3'' else if d = 4 then CHR ''4'' else if d = 5 then CHR ''5''
      else if d = 6 then CHR ''6'' else if d = 7 then CHR ''7'' else if d = 8 then CHR ''8''
      else CHR ''9'')"

function str_nat :: "nat \<Rightarrow> string" where
  "str_nat n = (if n < 10 then [digit_char n] else str_nat (n div 10) @ [digit_char (n mod 10)])"
  by pat_completeness auto
termination
  by (relation "measure id") auto

definition py_str_int :: "int \<Rightarrow> string" where
  \<comment> \<open>\<open>str(n)\<close> of an int\<close>
  "py_str_int i = (if i < 0 then CHR ''-'' # str_nat (nat (- i)) else str_nat (nat i))"

definition err_bind :: "error + 'a \<Rightarrow> ('a \<Rightarrow> error + 'b) \<Rightarrow> error + 'b" where
  \<comment> \<open>sequencing of two steps, the first of which may raise\<close>
  "err_bind m f = (case m of Inl e \<Rightarrow> Inl e | Inr x \<Rightarrow> f x)"

subsection \<open>\<open>datetime\<close> and \<open>timedelta\<close>\<close>

text \<open>
  A naive \<open>datetime\<close> is its seven fields. A \<open>timedelta\<close> built from hours and minutes is
  a whole number of seconds. Adding a \<open>timedelta\<close> goes through the proleptic Gregorian
  ordinal of the date (day 1 is 0001-01-01) and raises OverflowError outside the years
  1 to 9999, as the library does.
\<close>

record datetime =
  year :: int
  month :: int
  day :: int
  hour :: int
  minute :: int
  second :: int
  microsecond :: int

definition is_leap :: "int \<Rightarrow> bool" where
  "is_leap y = (y mod 4 = 0 \<and> (y mod 100 \<noteq> 0 \<or> y mod 400 = 0))"

definition days_in_month :: "int \<Rightarrow> int \<Rightarrow> int" where
  "days_in_month y m =
     (if m = 2 then (if is_leap y then 29 else 28)
      else if m = 4 \<or> m = 6 \<or> m = 9 \<or> m = 11 then 30 else 31)"

definition days_before_year :: "int \<Rightarrow> int" where
  "days_before_year y = (y - 1) * 365 + (y - 1) div 4 - (y - 1) div 100 + (y - 1) div 400"

fun days_before_month :: "int \<Rightarrow> nat \<Rightarrow> int" where
  \<comment> \<open>the days of the year before month \<open>Suc k\<close>\<close>
  "days_before_month y 0 = 0"
| "days_before_month y (Suc k) = days_before_month y k + days_in_month y (int (Suc k))"

definition ymd2ord :: "int \<Rightarrow> int \<Rightarrow> int \<Rightarrow> int" where
  "ymd2ord y m d = days_before_year y + days_before_month y (nat (m - 1)) + d"

fun find_month :: "int \<Rightarrow> nat \<Rightarrow> int \<Rightarrow> int \<Rightarrow> int \<times> int" where
  \<comment> \<open>month and day of the month of the day \<open>doy\<close> (counted from 0) after the start of
      month \<open>m\<close>; the counter bounds the months still to try\<close>
  "find_month y 0 m doy = (m, doy + 1)"
| "find_month y (Suc k) m doy =
     (if days_in_month y m \<le> doy then find_month y k (m + 1) (doy - days_in_month y m)
      else (m, doy + 1))"

definition ord2ymd :: "int \<Rightarrow> int \<times> int \<times> int" where
  "ord2ymd n =
     (let n0 = n - 1;
          n400 = n0 div 146097; r = n0 mod 146097;
          n100 = min 3 (r div 36524); r1 = r - n100 * 36524;
          n4 = r1 div 1461; r2 = r1 mod 1461;
          n1 = min 3 (r2 div 365); r3 = r2 - n1 * 365;
          y = 400 * n400 + 100 * n100 + 4 * n4 + n1 + 1;
          (m, d) = find_month y 11 1 r3
      in (y, m, d))"

definition max_ordinal :: int where
  \<comment> \<open>the ordinal of 9999-12-31\<close>
  "max_ordinal = 3652059"

definition toordinal :: "datetime \<Rightarrow> int" where
  "toordinal t = ymd2ord (year t) (month t) (day t)"

definition in_c_int :: "int \<Rightarrow> bool" where
  "in_c_int x = (- 2147483648 \<le> x \<and> x \<le> 2147483647)"

definition mk_datetime :: "int \<Rightarrow> int \<Rightarrow> int \<Rightarrow> int \<Rightarrow> int \<Rightarrow> int \<Rightarrow> error + datetime" where
  \<comment> \<open>\<open>datetime(year, month, day, hour, minute, second)\<close>: an argument that does not fit a
      C int raises OverflowError, a field out of range raises ValueError\<close>
  "mk_datetime y m d h mi s =
     (if \<not> (in_c_int y \<and> in_c_int m \<and> in_c_int d \<and> in_c_int h \<and> in_c_int mi \<and> in_c_int s)
      then Inl OverflowError
      else if 1 \<le> y \<and> y \<le> 9999 \<and> 1 \<le> m \<and> m \<le> 12 \<and> 1 \<le> d \<and> d \<le> days_in_month y m
              \<and> 0 \<le> h \<and> h \<le> 23 \<and> 0 \<le> mi \<and> mi \<le> 59 \<and> 0 \<le> s \<and> s \<le> 59
      then Inr \<lparr>year = y, month = m, day = d, hour = h, minute = mi, second = s, microsecond = 0\<rparr>
      else Inl ValueError)"

definition py_timedelta :: "int \<Rightarrow> int \<Rightarrow> error + int" where
  \<comment> \<open>\<open>timedelta(hours=h, minutes=m)\<close> in seconds; more than 999999999 days either way
      raises OverflowError\<close>
  "py_timedelta h m =
     (let secs = h * 3600 + m * 60; days = secs div 86400
      in if - 999999999 \<le> days \<and> days \<le> 999999999 then Inr secs else Inl OverflowError)"

definition dt_add :: "datetime \<Rightarrow> int \<Rightarrow> error + datetime" where
  \<comment> \<open>\<open>t + delta\<close>, the delta in seconds\<close>
  "dt_add t secs =
     (let total = toordinal t * 86400 + hour t * 3600 + minute t * 60 + second t + secs;
          days = total div 86400; rest = total mod 86400
      in if 0 < days \<and> days \<le> max_ordinal
         then (case ord2ymd days of (y, m, d) \<Rightarrow>
                 Inr \<lparr>year = y, month = m, day = d, hour = rest div 3600,
                      minute = rest mod 3600 div 60, second = rest mod 60,
                      microsecond = microsecond t\<rparr>)
         else Inl OverflowError)"

definition dt_sub :: "datetime \<Rightarrow> int \<Rightarrow> error + datetime" where
  \<comment> \<open>\<open>t - delta\<close>: the library adds the negated delta\<close>
  "dt_sub t secs = dt_add t (- secs)"

definition dt_key :: "datetime \<Rightarrow> int \<times> int \<times> int \<times> int \<times> int \<times> int \<times> int" where
  "dt_key t = (year t, month t, day t, hour t, minute t, second t, microsecond t)"

definition dt_less :: "datetime \<Rightarrow> datetime \<Rightarrow> bool" where
  \<comment> \<open>\<open>a < b\<close> on naive datetimes: the fields compared in order\<close>
  "dt_less a b = (dt_key a < dt_key b)"

section \<open>The timestamp parser\<close>

datatype scalar = Str string | Num int

fun py_str :: "scalar \<Rightarrow> string" where
  \<comment> \<open>\<open>str(v)\<close>\<close>
  "py_str (Str s) = s"
| "py_str (Num i) = py_str_int i"

definition parse_hms :: "string list \<Rightarrow> error + int \<times> int \<times> int" where
  \<comment> \<open>lines 69 to 75: hour, minute and second of the split time piece\<close>
  "parse_hms time =
     (if length time = 3 then
        err_bind (py_int (time ! 0)) (\<lambda>h.
        err_bind (py_int (time ! 1)) (\<lambda>mi.
        err_bind (py_int (py_split_on CHR ''.'' (time ! 2) ! 0)) (\<lambda>s. Inr (h, mi, s))))
      else if length time = 2 then
        err_bind (py_int (time ! 0)) (\<lambda>h.
        err_bind (py_int (time ! 1)) (\<lambda>mi. Inr (h, mi, 0)))
      else Inr (12, 0, 0))"

definition parse_tz :: "string list \<Rightarrow> error + int option" where
  \<comment> \<open>lines 78 to 90: the \<open>dateadd\<close> of the time-zone suffix, None when no adjustment is set\<close>
  "parse_tz time_entries =
     (if length time_entries > 2 then
        (let time_zone = py_split_on CHR '':'' (time_entries ! 2)
         in if length time_zone = 2 then
              err_bind (py_int (time_zone ! 0)) (\<lambda>tzh.
              err_bind (py_int (time_zone ! 1)) (\<lambda>tzm.
              err_bind (py_timedelta (if time_entries ! 1 = ''-'' then tzh * (- 1) else tzh) tzm)
                (\<lambda>dateadd. Inr (Some dateadd))))
            else Inr None)
      else Inr None)"

definition parse_time :: "string list \<Rightarrow> error + (int \<times> int \<times> int) \<times> int option" where
  \<comment> \<open>lines 60 to 90\<close>
  "parse_time elements =
     (if length elements > 1 then
        (let time_entries = re_split_tz (elements ! 1);
             time = py_split_on CHR '':'' (time_entries ! 0)
         in err_bind (parse_hms time) (\<lambda>hms.
            err_bind (parse_tz time_entries) (\<lambda>dateadd. Inr (hms, dateadd))))
      else Inr ((12, 0, 0), None))"

definition date_shape_ok :: "string list \<Rightarrow> bool" where
  \<comment> \<open>the test of line 52\<close>
  "date_shape_ok date_entries =
     (length date_entries = 3 \<and> date_entries ! 0 > ''0000''
      \<and> CHR ''.'' \<notin> set (concat date_entries) \<and> length (date_entries ! 0) = 4)"

definition parse_date_exif :: "(datetime \<Rightarrow> bool) \<Rightarrow> scalar \<Rightarrow> error + datetime option" where
  \<comment> \<open>\<open>fmt_ok date\<close> tells whether \<open>date.strftime('%Y/%m-%b')\<close> returns on the platform
      (it raises ValueError for early years on some). The result None is the script's
      \<open>return None\<close>.\<close>
  "parse_date_exif fmt_ok date_string =
     (let elements = py_split (py_strip (py_str date_string))
      in if length elements < 1 then Inr None
         else
           (let date_entries = py_split_on CHR '':'' (elements ! 0)
            in if date_shape_ok date_entries then
                 err_bind (py_int (date_entries ! 0)) (\<lambda>y.
                 err_bind (py_int (date_entries ! 1)) (\<lambda>m.
                 err_bind (py_int (date_entries ! 2)) (\<lambda>d.
                 err_bind (parse_time elements) (\<lambda>((h, mi, s), dateadd).
                   (case mk_datetime y m d h mi s of
                      Inl e \<Rightarrow> (if e = ValueError then Inr None else Inl e)
                    | Inr date \<Rightarrow>
                        if \<not> fmt_ok date then Inr None
                        else (case dateadd of
                                None \<Rightarrow> Inr (Some date)
                              | Some delta \<Rightarrow> err_bind (dt_add date delta) (\<lambda>r. Inr (Some r))))))))
               else Inr None))"

section \<open>The oldest-timestamp selector\<close>

text \<open>
  One metadata record is the dictionary \<open>json.loads\<close> built for a file: an association
  list in the dictionary's iteration order. A value is a string, a number or a list.
\<close>

datatype tagvalue = One scalar | Many "scalar list"

type_synonym metadata = "(string \<times> tagvalue) list"

fun starts_with :: "string \<Rightarrow> string \<Rightarrow> bool" where
  "starts_with [] s = True"
| "starts_with (p # ps) [] = False"
| "starts_with (p # ps) (c # cs) = (p = c \<and> starts_with ps cs)"

fun py_in :: "string \<Rightarrow> string \<Rightarrow> bool" where
  \<comment> \<open>\<open>sub in s\<close> on strings\<close>
  "py_in sub [] = (sub = [])"
| "py_in sub (c # cs) = (starts_with sub (c # cs) \<or> py_in sub cs)"

definition key_considered :: "string list \<Rightarrow> string list \<Rightarrow> string \<Rightarrow> bool" where
  \<comment> \<open>the test of line 136\<close>
  "key_considered ignore_groups ignore_tags key =
     (key \<notin> set ignore_tags \<and> py_split_on CHR '':'' key ! 0 \<notin> set ignore_groups
      \<and> \<not> py_in ''GPS'' key)"

definition first_value :: "tagvalue \<Rightarrow> error + scalar" where
  \<comment> \<open>lines 144 and 145: the first element of a list (IndexError on the empty list)\<close>
  "first_value v =
     (case v of One x \<Rightarrow> Inr x
      | Many xs \<Rightarrow> (case xs of [] \<Rightarrow> Inl IndexError | x # _ \<Rightarrow> Inr x))"

definition tag_date :: "(datetime \<Rightarrow> bool) \<Rightarrow> metadata \<Rightarrow> string \<Rightarrow> error + datetime option" where
  \<comment> \<open>lines 138 to 147: \<open>exifdate\<close> for one key of the record\<close>
  "tag_date fmt_ok data key =
     (case map_of data key of
        None \<Rightarrow> Inl KeyError
      | Some v \<Rightarrow> err_bind (first_value v) (parse_date_exif fmt_ok))"

type_synonym oldest = "bool \<times> datetime \<times> string list"

definition oldest_step ::
  "(datetime \<Rightarrow> bool) \<Rightarrow> metadata \<Rightarrow> string list \<Rightarrow> string list \<Rightarrow> oldest \<Rightarrow> string
     \<Rightarrow> error + oldest" where
  \<comment> \<open>the body of the loop of line 133 on the state
      \<open>(date_available, oldest_date, oldest_keys)\<close>\<close>
  "oldest_step fmt_ok data ignore_groups ignore_tags st key =
     (case st of (date_available, oldest_date, oldest_keys) \<Rightarrow>
        if key_considered ignore_groups ignore_tags key then
          err_bind (tag_date fmt_ok data key) (\<lambda>exifdate.
            case exifdate of
              None \<Rightarrow> Inr st
            | Some d \<Rightarrow>
                if dt_less d oldest_date then Inr (True, d, [key])
                else if d = oldest_date then Inr (date_available, oldest_date, oldest_keys @ [key])
                else Inr st)
        else Inr st)"

fun oldest_loop ::
  "(datetime \<Rightarrow> bool) \<Rightarrow> metadata \<Rightarrow> string list \<Rightarrow> string list \<Rightarrow> oldest \<Rightarrow> string list
     \<Rightarrow> error + oldest" where
  "oldest_loop ok data ig it st [] = Inr st"
| "oldest_loop ok data ig it st (key # keys) =
     err_bind (oldest_step ok data ig it st key) (\<lambda>st'. oldest_loop ok data ig it st' keys)"

definition get_oldest_timestamp ::
  "(datetime \<Rightarrow> bool) \<Rightarrow> datetime \<Rightarrow> metadata \<Rightarrow> string list \<Rightarrow> string list
     \<Rightarrow> error + tagvalue \<times> datetime option \<times> string list" where
  \<comment> \<open>\<open>now\<close> is what \<open>datetime.now()\<close> returns at line 118\<close>
  "get_oldest_timestamp fmt_ok now data additional_groups_to_ignore additional_tags_to_ignore =
     (case map_of data ''SourceFile'' of
        None \<Rightarrow> Inl KeyError
      | Some src_file \<Rightarrow>
          (let ignore_groups = [''ICC_Profile''] @ additional_groups_to_ignore;
               ignore_tags = [''SourceFile'', ''XMP:HistoryWhen''] @ additional_tags_to_ignore
           in err_bind (oldest_loop fmt_ok data ignore_groups ignore_tags (False, now, [])
                          (map fst data))
                (\<lambda>(date_available, oldest_date, oldest_keys).
                   Inr (src_file, if date_available then Some oldest_date else None, oldest_keys))))"

section \<open>The day-boundary adjuster\<close>

definition check_for_early_morning_photos :: "datetime \<Rightarrow> int \<Rightarrow> error + datetime" where
  "check_for_early_morning_photos date day_begins =
     (if hour date < day_begins
      then err_bind (py_timedelta (hour date + 1) 0) (\<lambda>delta. dt_sub date delta)
      else Inr date)"

definition strftime_py3 :: "datetime \<Rightarrow> bool" where
  \<comment> \<open>a platform whose \<open>strftime\<close> formats every year from 1 to 9999\<close>
  "strftime_py3 t = True"

definition strftime_py2 :: "datetime \<Rightarrow> bool" where
  \<comment> \<open>a platform whose \<open>strftime\<close> raises ValueError before the year 1900\<close>
  "strftime_py2 t = (1900 \<le> year t)"

section \<open>Paths, files and the library calls of the orchestrator\<close>

text \<open>
  Paths are POSIX paths and are compared as strings. The state holds the regular files
  and the directories the script can see, by path, and \<open>test_file_dict\<close>, the ledger of
  test mode. Every failing system call is the one error OSError.
\<close>

definition os_path_basename :: "string \<Rightarrow> string" where
  \<comment> \<open>\<open>os.path.basename(p)\<close>, also \<open>os.path.split(p)[-1]\<close>: what follows the last slash\<close>
  "os_path_basename p = rev (takeWhile (\<lambda>c. c \<noteq> CHR ''/'') (rev p))"

definition os_path_join :: "string \<Rightarrow> string \<Rightarrow> string" where
  "os_path_join a b =
     (if starts_with ''/'' b then b
      else if a = [] \<or> last a = CHR ''/'' then a @ b
      else a @ ''/'' @ b)"

definition os_path_splitext :: "string \<Rightarrow> string \<times> string" where
  \<comment> \<open>the extension starts at the last dot of the base name, unless only dots precede it\<close>
  "os_path_splitext p =
     (let base = os_path_basename p;
          ext = CHR ''.'' # rev (takeWhile (\<lambda>c. c \<noteq> CHR ''.'') (rev base));
          stem = take (length base - length ext) base
      in if CHR ''.'' \<in> set base \<and> list_ex (\<lambda>c. c \<noteq> CHR ''.'') stem
         then (take (length p - length ext) p, ext)
         else (p, []))"

record regfile =
  content :: string
  mtime :: int

record state =
  files :: "(string \<times> regfile) list"
  dirs :: "string list"
  test_file_dict :: "(string \<times> string) list"

datatype 'a run = Ok 'a state | Raised error state

fun final :: "'a run \<Rightarrow> state" where
  "final (Ok x st) = st"
| "final (Raised e st) = st"

definition os_path_isfile :: "state \<Rightarrow> string \<Rightarrow> bool" where
  "os_path_isfile st p = (p \<in> set (map fst (files st)))"

definition os_path_isdir :: "state \<Rightarrow> string \<Rightarrow> bool" where
  "os_path_isdir st p = (p \<in> set (dirs st))"

definition os_path_exists :: "state \<Rightarrow> string \<Rightarrow> bool" where
  "os_path_exists st p = (os_path_isfile st p \<or> os_path_isdir st p)"

definition put_file :: "string \<Rightarrow> regfile \<Rightarrow> (string \<times> regfile) list \<Rightarrow> (string \<times> regfile) list" where
  "put_file p f fs = (p, f) # filter (\<lambda>e. fst e \<noteq> p) fs"

definition os_remove :: "state \<Rightarrow> string \<Rightarrow> unit run" where
  "os_remove st p =
     (if os_path_isfile st p then Ok () (st\<lparr>files := filter (\<lambda>e. fst e \<noteq> p) (files st)\<rparr>)
      else Raised OSError st)"

definition os_makedirs :: "state \<Rightarrow> string \<Rightarrow> unit run" where
  \<comment> \<open>the directory itself is recorded; the missing ancestors it also creates are not\<close>
  "os_makedirs st p =
     (if os_path_exists st p then Raised OSError st else Ok () (st\<lparr>dirs := dirs st @ [p]\<rparr>))"

definition os_rmdir :: "state \<Rightarrow> string \<Rightarrow> bool \<Rightarrow> unit run" where
  \<comment> \<open>\<open>os.rmdir(p)\<close>; \<open>is_empty\<close> tells whether the directory has no entry left\<close>
  "os_rmdir st p is_empty =
     (if os_path_isdir st p \<and> is_empty then Ok () (st\<lparr>dirs := removeAll p (dirs st)\<rparr>)
      else Raised OSError st)"

definition filecmp_cmp :: "state \<Rightarrow> string \<Rightarrow> string \<Rightarrow> error + bool" where
  \<comment> \<open>\<open>filecmp.cmp(f1, f2)\<close> with its default \<open>shallow=True\<close>: two regular files of the same
      size and modification time are taken to be equal without reading them\<close>
  "filecmp_cmp st f1 f2 =
     (if os_path_exists st f1 \<and> os_path_exists st f2
      then (case (map_of (files st) f1, map_of (files st) f2) of
              (Some a, Some b) \<Rightarrow>
                Inr ((length (content a) = length (content b) \<and> mtime a = mtime b)
                     \<or> content a = content b)
            | _ \<Rightarrow> Inr False)
      else Inl OSError)"

definition shutil_move :: "state \<Rightarrow> string \<Rightarrow> string \<Rightarrow> unit run" where
  \<comment> \<open>\<open>shutil.move(src, dst)\<close> of a regular file: into \<open>dst\<close> when that is a directory,
      else onto \<open>dst\<close>, replacing a file that is there\<close>
  "shutil_move st src dst =
     (case map_of (files st) src of
        None \<Rightarrow> Raised OSError st
      | Some f \<Rightarrow>
          (let real_dst = (if os_path_isdir st dst then os_path_join dst (os_path_basename src)
                           else dst)
           in if os_path_isdir st dst \<and> os_path_exists st real_dst then Raised OSError st
              else if real_dst = src then Ok () st
              else Ok () (st\<lparr>files := put_file real_dst f
                                          (filter (\<lambda>e. fst e \<noteq> src) (files st))\<rparr>)))"

definition shutil_copy2 :: "state \<Rightarrow> string \<Rightarrow> string \<Rightarrow> unit run" where
  \<comment> \<open>\<open>shutil.copy2(src, dst)\<close>: content and modification time; copying a file onto
      itself raises\<close>
  "shutil_copy2 st src dst =
     (case map_of (files st) src of
        None \<Rightarrow> Raised OSError st
      | Some f \<Rightarrow>
          (let real_dst = (if os_path_isdir st dst then os_path_join dst (os_path_basename src)
                           else dst)
           in if real_dst = src \<or> os_path_isdir st real_dst then Raised OSError st
              else Ok () (st\<lparr>files := put_file real_dst f (files st)\<rparr>)))"

datatype dirtree = Dir "string list" "(string \<times> dirtree) list"

text \<open>
  What the script calls and this repository does not hold: \<open>strftime\<close> (whether the probe
  of line 101 returns, and the text a format gives), \<open>fnmatch.fnmatch\<close>, the records
  ExifTool returns for its arguments, and the tree \<open>os.walk\<close> lists below a directory
  (the file names and the sub-directories of each directory).
\<close>

record platform =
  strftime_ok :: "datetime \<Rightarrow> bool"
  strftime :: "string \<Rightarrow> datetime \<Rightarrow> string"
  fnmatch :: "string \<Rightarrow> string \<Rightarrow> bool"
  exiftool :: "string list \<Rightarrow> state \<Rightarrow> metadata list"
  os_walk :: "state \<Rightarrow> string \<Rightarrow> dirtree"

datatype ignore_arg = IgnNone | IgnStr string | IgnList "string list"

record arguments =
  src_dir :: string
  dest_dir :: string
  sort_format :: string
  rename_format :: "string option"
  recursive :: bool
  copy_files :: bool
  test :: bool
  remove_duplicates :: bool
  day_begins :: int
  additional_groups_to_ignore :: "string list"
  additional_tags_to_ignore :: "string list"
  use_only_groups :: "string list option"
  use_only_tags :: "string list option"
  ignore_list :: ignore_arg
  remove_ignored_files :: bool
  remove_empty_dirs :: bool
  verbose :: bool

section \<open>The placement engine\<close>

subsection \<open>Collision resolution (lines 417 to 445)\<close>

definition candidate :: "string \<Rightarrow> string \<Rightarrow> nat \<Rightarrow> string" where
  \<comment> \<open>line 439: \<open>root + '_' + str(append) + ext\<close>\<close>
  "candidate root ext n = root @ ''_'' @ str_nat n @ ext"

definition dest_compare_of :: "bool \<Rightarrow> state \<Rightarrow> string \<Rightarrow> string option" where
  \<comment> \<open>lines 423 to 427: None when the name is free, else the file to compare with: in test
      mode the source that claimed the name in the ledger, else the file on disk\<close>
  "dest_compare_of tst st dest_file =
     (if tst then (case map_of (test_file_dict st) dest_file of
                     None \<Rightarrow> None | Some claimed_by \<Rightarrow> Some claimed_by)
      else if os_path_isfile st dest_file then Some dest_file else None)"

function collision_loop ::
  "bool \<Rightarrow> bool \<Rightarrow> state \<Rightarrow> string \<Rightarrow> string \<Rightarrow> string \<Rightarrow> string \<Rightarrow> nat
     \<Rightarrow> error + string \<times> bool" where
  \<comment> \<open>the \<open>while True\<close> of line 421 on \<open>(dest_file, append)\<close>; the result is the final
      \<open>dest_file\<close> with \<open>fileIsIdentical\<close>\<close>
  "collision_loop tst rmdup st src_file root ext dest_file append_n =
     (case dest_compare_of tst st dest_file of
        None \<Rightarrow> Inr (dest_file, False)
      | Some dest_compare \<Rightarrow>
          if rmdup then
            (case filecmp_cmp st src_file dest_compare of
               Inl e \<Rightarrow> Inl e
             | Inr same \<Rightarrow>
                 if same then Inr (dest_file, True)
                 else collision_loop tst rmdup st src_file root ext
                        (candidate root ext append_n) (append_n + 1))
          else collision_loop tst rmdup st src_file root ext
                 (candidate root ext append_n) (append_n + 1))"
  by pat_completeness auto

text \<open>
  The loop ends because the names in use are finitely many and the candidates are
  pairwise different: \<open>str\<close> is injective on the naturals.
\<close>

lemma digit_char_inj: "a < 10 \<Longrightarrow> b < 10 \<Longrightarrow> digit_char a = digit_char b \<Longrightarrow> a = b"
  by (simp add: digit_char_def split: if_splits) arith

lemma str_nat_not_Nil: "str_nat n \<noteq> []"
  by (subst str_nat.simps) simp

lemma str_nat_inj: "str_nat a = str_nat b \<Longrightarrow> a = b"
proof (induction a arbitrary: b rule: str_nat.induct)
  case (1 n)
  note eq = \<open>str_nat n = str_nat b\<close>
  show ?case
  proof (cases "n < 10")
    case small_n: True
    show ?thesis
    proof (cases "b < 10")
      case True
      with small_n eq show ?thesis
        by (simp add: digit_char_inj)
    next
      case False
      with small_n eq show ?thesis
        using str_nat_not_Nil[of "b div 10"]
        by (subst (asm) (2) str_nat.simps, subst (asm) str_nat.simps) simp
    qed
  next
    case big_n: False
    show ?thesis
    proof (cases "b < 10")
      case True
      with big_n eq show ?thesis
        using str_nat_not_Nil[of "n div 10"]
        by (subst (asm) (2) str_nat.simps, subst (asm) str_nat.simps) simp
    next
      case big_b: False
      from big_n big_b eq
      have "str_nat (n div 10) @ [digit_char (n mod 10)]
            = str_nat (b div 10) @ [digit_char (b mod 10)]"
        by (subst (asm) (2) str_nat.simps, subst (asm) str_nat.simps) simp
      then have "str_nat (n div 10) = str_nat (b div 10)"
        and "digit_char (n mod 10) = digit_char (b mod 10)"
        by simp_all
      with "1.IH"[OF big_n] have "n div 10 = b div 10" and "n mod 10 = b mod 10"
        by (auto intro: digit_char_inj)
      then show ?thesis
        by (metis div_mult_mod_eq)
    qed
  qed
qed

lemma candidate_inj: "candidate root ext a = candidate root ext b \<Longrightarrow> a = b"
  by (simp add: candidate_def str_nat_inj)

definition names_in_use :: "bool \<Rightarrow> state \<Rightarrow> string set" where
  "names_in_use tst st =
     (if tst then set (map fst (test_file_dict st)) else set (map fst (files st)))"

lemma dest_compare_in_use: "dest_compare_of tst st p = Some d \<Longrightarrow> p \<in> names_in_use tst st"
  by (auto simp: dest_compare_of_def names_in_use_def os_path_isfile_def
           split: if_splits option.splits dest!: map_of_SomeD intro: rev_image_eqI)

lemma finite_candidates_in_use:
  "finite {k. n \<le> k \<and> candidate root ext k \<in> names_in_use tst st}"
proof -
  have "finite (names_in_use tst st)"
    by (simp add: names_in_use_def)
  then have "finite (candidate root ext -` names_in_use tst st)"
    by (rule finite_vimageI) (auto simp: inj_on_def dest: candidate_inj)
  then show ?thesis
    by (rule rev_finite_subset) auto
qed

lemma candidates_from:
  "{k. n \<le> k \<and> candidate root ext k \<in> S} =
   (if candidate root ext n \<in> S then insert n {k. Suc n \<le> k \<and> candidate root ext k \<in> S}
    else {k. Suc n \<le> k \<and> candidate root ext k \<in> S})"
  by (auto simp: Suc_le_eq le_less)

lemma candidates_less:
  "candidate root ext n \<in> names_in_use tst st \<Longrightarrow>
   card {k. Suc n \<le> k \<and> candidate root ext k \<in> names_in_use tst st}
   < card {k. n \<le> k \<and> candidate root ext k \<in> names_in_use tst st}"
  using finite_candidates_in_use[of "Suc n" root ext tst st]
  by (subst (2) candidates_from) simp

lemma candidates_le:
  "card {k. Suc n \<le> k \<and> candidate root ext k \<in> names_in_use tst st}
   < Suc (card {k. n \<le> k \<and> candidate root ext k \<in> names_in_use tst st})"
  using finite_candidates_in_use[of "Suc n" root ext tst st]
  by (subst (2) candidates_from) (simp add: card_insert_if)

termination collision_loop
  by (relation "measure (\<lambda>(tst, rmdup, st, src_file, root, ext, dest_file, n).
          card {k. n \<le> k \<and> candidate root ext k \<in> names_in_use tst st}
          + (if dest_file \<in> names_in_use tst st then 1 else 0))")
     (auto simp: candidates_less candidates_le dest: dest_compare_in_use)

declare collision_loop.simps [simp del]

subsection \<open>Placing one file (lines 384 to 460)\<close>

fun make_dirs :: "state \<Rightarrow> string \<Rightarrow> string list \<Rightarrow> string run" where
  \<comment> \<open>the loop of line 388; it runs in test mode too\<close>
  "make_dirs st dest_file [] = Ok dest_file st"
| "make_dirs st dest_file (thedir # rest) =
     (let d = os_path_join dest_file thedir
      in if \<not> os_path_exists st d
         then (case os_makedirs st d of
                 Raised e st' \<Rightarrow> Raised e st'
               | Ok u st' \<Rightarrow> make_dirs st' d rest)
         else make_dirs st d rest)"

definition put_entry :: "string \<Rightarrow> string \<Rightarrow> (string \<times> string) list \<Rightarrow> (string \<times> string) list" where
  \<comment> \<open>\<open>d[k] = v\<close> on the ledger\<close>
  "put_entry k v d = (if k \<in> set (map fst d) then map (\<lambda>e. if fst e = k then (k, v) else e) d
                      else d @ [(k, v)])"

definition place_file :: "platform \<Rightarrow> arguments \<Rightarrow> string \<Rightarrow> datetime \<Rightarrow> state \<Rightarrow> unit run" where
  "place_file pl a src_file date st =
     (let dir_structure = strftime pl (sort_format a) date;
          thedirs = py_split_on CHR ''/'' dir_structure
      in case make_dirs st (dest_dir a) thedirs of
           Raised e st1 \<Rightarrow> Raised e st1
         | Ok dest_folder st1 \<Rightarrow>
             (let filename0 = os_path_basename src_file;
                  filename = (case rename_format a of
                                None \<Rightarrow> filename0
                              | Some fmt \<Rightarrow> strftime pl fmt date @ snd (os_path_splitext filename0));
                  dest_file0 = os_path_join dest_folder filename;
                  (root, ext) = os_path_splitext dest_file0
              in case collision_loop (test a) (remove_duplicates a) st1 src_file root ext dest_file0 1 of
                   Inl e \<Rightarrow> Raised e st1
                 | Inr (dest_file, fileIsIdentical) \<Rightarrow>
                     if test a
                     then Ok () (st1\<lparr>test_file_dict := put_entry dest_file src_file (test_file_dict st1)\<rparr>)
                     else if copy_files a
                     then (if fileIsIdentical then Ok () st1 else shutil_copy2 st1 src_file dest_file)
                     else shutil_move st1 src_file dest_file))"

section \<open>The batch orchestrator\<close>

subsection \<open>The per-file loop (lines 331 to 466)\<close>

fun ignore_filters :: "platform \<Rightarrow> arguments \<Rightarrow> string \<Rightarrow> string list \<Rightarrow> state \<Rightarrow> unit run" where
  \<comment> \<open>the loop of line 360 over the filters. The \<open>continue\<close> of line 368 is a statement of
      this loop: it goes on with the next filter.\<close>
  "ignore_filters pl a src_file [] st = Ok () st"
| "ignore_filters pl a src_file (flt # rest) st =
     (if fnmatch pl (os_path_basename src_file) flt then
        (if remove_ignored_files a then
           (if \<not> test a then
              (case os_remove st src_file of
                 Raised e st' \<Rightarrow> Raised e st'
               | Ok u st' \<Rightarrow> ignore_filters pl a src_file rest st')
            else ignore_filters pl a src_file rest st)
         else ignore_filters pl a src_file rest st)
      else ignore_filters pl a src_file rest st)"

definition process_record ::
  "platform \<Rightarrow> arguments \<Rightarrow> string list \<Rightarrow> string list \<Rightarrow> string list option \<Rightarrow> datetime
     \<Rightarrow> metadata \<Rightarrow> state \<Rightarrow> unit run" where
  \<comment> \<open>one turn of the loop of line 331. \<open>groups\<close>, \<open>tags\<close> and \<open>filters\<close> are the locals
      \<open>additional_groups_to_ignore\<close>, \<open>additional_tags_to_ignore\<close> and \<open>ignore_list\<close> as
      lines 280 to 301 leave them. A SourceFile that is not a string raises TypeError
      where it is first used as text.\<close>
  "process_record pl a groups tags filters now data st =
     (case get_oldest_timestamp (strftime_ok pl) now data groups tags of
        Inl e \<Rightarrow> Raised e st
      | Inr (src, date, keys) \<Rightarrow>
          (case src of
             One (Str src_file) \<Rightarrow>
               (case date of
                  None \<Rightarrow> Ok () st
                | Some d \<Rightarrow>
                    (case (case filters of
                             None \<Rightarrow> Ok () st
                           | Some flts \<Rightarrow> ignore_filters pl a src_file flts st) of
                       Raised e st1 \<Rightarrow> Raised e st1
                     | Ok u st1 \<Rightarrow>
                         if starts_with ''.'' (os_path_basename src_file) then Ok () st1
                         else (case check_for_early_morning_photos d (day_begins a) of
                                 Inl e \<Rightarrow> Raised e st1
                               | Inr d' \<Rightarrow> place_file pl a src_file d' st1)))
           | _ \<Rightarrow> (if verbose a then Raised TypeError st
                   else (case date of None \<Rightarrow> Ok () st | Some d \<Rightarrow> Raised TypeError st))))"

fun process_all ::
  "platform \<Rightarrow> arguments \<Rightarrow> string list \<Rightarrow> string list \<Rightarrow> string list option
     \<Rightarrow> (nat \<Rightarrow> datetime) \<Rightarrow> nat \<Rightarrow> metadata list \<Rightarrow> state \<Rightarrow> unit run" where
  \<comment> \<open>\<open>clock idx\<close> is the time of day at which record \<open>idx\<close> is examined\<close>
  "process_all pl a groups tags filters clock idx [] st = Ok () st"
| "process_all pl a groups tags filters clock idx (data # rest) st =
     (case process_record pl a groups tags filters (clock idx) data st of
        Raised e st' \<Rightarrow> Raised e st'
      | Ok u st' \<Rightarrow> process_all pl a groups tags filters clock (Suc idx) rest st')"

subsection \<open>Walking the source tree\<close>

fun walk_topdown :: "string \<Rightarrow> dirtree \<Rightarrow> (string \<times> string list \<times> string list) list"
  and walk_subdirs :: "string \<Rightarrow> (string \<times> dirtree) list \<Rightarrow> (string \<times> string list \<times> string list) list" where
  \<comment> \<open>the triples \<open>(dirpath, dirnames, filenames)\<close> of \<open>os.walk(dirpath)\<close>\<close>
  "walk_topdown dirpath (Dir fnames subs) =
     (dirpath, map fst subs, fnames) # walk_subdirs dirpath subs"
| "walk_subdirs dirpath [] = []"
| "walk_subdirs dirpath (sub # rest) =
     walk_topdown (os_path_join dirpath (fst sub)) (snd sub) @ walk_subdirs dirpath rest"

fun prescan_file :: "platform \<Rightarrow> bool \<Rightarrow> string \<Rightarrow> string \<Rightarrow> string list \<Rightarrow> state \<Rightarrow> unit run" where
  \<comment> \<open>lines 308 to 315: the first filter that matches deletes the file and ends the loop\<close>
  "prescan_file pl tst root current_file [] st = Ok () st"
| "prescan_file pl tst root current_file (flt # rest) st =
     (if fnmatch pl (os_path_basename current_file) flt
      then (if \<not> tst then os_remove st (os_path_join root current_file) else Ok () st)
      else prescan_file pl tst root current_file rest st)"

fun prescan_files :: "platform \<Rightarrow> bool \<Rightarrow> string \<Rightarrow> string list \<Rightarrow> string list \<Rightarrow> state \<Rightarrow> unit run" where
  "prescan_files pl tst root [] flts st = Ok () st"
| "prescan_files pl tst root (current_file # rest) flts st =
     (case prescan_file pl tst root current_file flts st of
        Raised e st' \<Rightarrow> Raised e st'
      | Ok u st' \<Rightarrow> prescan_files pl tst root rest flts st')"

fun prescan_walk ::
  "platform \<Rightarrow> bool \<Rightarrow> (string \<times> string list \<times> string list) list \<Rightarrow> string list \<Rightarrow> state
     \<Rightarrow> unit run" where
  "prescan_walk pl tst [] flts st = Ok () st"
| "prescan_walk pl tst (triple # rest) flts st =
     (case prescan_files pl tst (fst triple) (snd (snd triple)) flts st of
        Raised e st' \<Rightarrow> Raised e st'
      | Ok u st' \<Rightarrow> prescan_walk pl tst rest flts st')"

subsection \<open>Removing empty directories (lines 472 to 479)\<close>

text \<open>
  With \<open>topdown=False\<close> a directory is listed before its sub-directories are walked and
  is handed to the loop body after them. The result tells whether the directory was
  removed: \<open>os.rmdir\<close> succeeds only on a directory with no file and no sub-directory left.
\<close>

fun cleanup_dir :: "bool \<Rightarrow> string \<Rightarrow> string \<Rightarrow> dirtree \<Rightarrow> state \<Rightarrow> bool run"
  and cleanup_subdirs :: "bool \<Rightarrow> string \<Rightarrow> string \<Rightarrow> (string \<times> dirtree) list \<Rightarrow> state \<Rightarrow> bool run" where
  "cleanup_dir tst src dirpath (Dir fnames subs) st =
     (case cleanup_subdirs tst src dirpath subs st of
        Raised e st' \<Rightarrow> Raised e st'
      | Ok all_gone st' \<Rightarrow>
          if fnames = [] \<and> dirpath \<noteq> src then
            (if \<not> tst then
               (case os_rmdir st' dirpath all_gone of
                  Raised e st'' \<Rightarrow> Raised e st''
                | Ok u st'' \<Rightarrow> Ok True st'')
             else Ok False st')
          else Ok False st')"
| "cleanup_subdirs tst src dirpath [] st = Ok True st"
| "cleanup_subdirs tst src dirpath (sub # rest) st =
     (case cleanup_dir tst src (os_path_join dirpath (fst sub)) (snd sub) st of
        Raised e st' \<Rightarrow> Raised e st'
      | Ok gone st' \<Rightarrow>
          (case cleanup_subdirs tst src dirpath rest st' of
             Raised e st'' \<Rightarrow> Raised e st''
           | Ok rest_gone st'' \<Rightarrow> Ok (gone \<and> rest_gone) st''))"

subsection \<open>\<open>sortPhotos\<close>\<close>

definition setup_tags :: "arguments \<Rightarrow> string list \<times> string list \<times> string list" where
  \<comment> \<open>lines 277 to 292: the ExifTool arguments, and \<open>additional_groups_to_ignore\<close> and
      \<open>additional_tags_to_ignore\<close> as the selector will receive them\<close>
  "setup_tags a =
     (case use_only_tags a of
        Some ts \<Rightarrow> ([''-j'', ''-a'', ''-G''] @ map (\<lambda>t. ''-'' @ t) ts, [], [])
      | None \<Rightarrow>
          (case use_only_groups a of
             Some gs \<Rightarrow> ([''-j'', ''-a'', ''-G''] @ map (\<lambda>g. ''-'' @ g @ '':Time:All'') gs,
                         [], additional_tags_to_ignore a)
           | None \<Rightarrow> ([''-j'', ''-a'', ''-G''] @ [''-time:all''],
                      additional_groups_to_ignore a, additional_tags_to_ignore a)))"

definition split_ignore_list :: "ignore_arg \<Rightarrow> error + string list option" where
  \<comment> \<open>lines 300 and 301: a list has no method \<open>split\<close>\<close>
  "split_ignore_list il =
     (case il of
        IgnNone \<Rightarrow> Inr None
      | IgnStr s \<Rightarrow> Inr (Some (py_split_on CHR '','' s))
      | IgnList xs \<Rightarrow> Inl AttributeError)"

definition prescan :: "platform \<Rightarrow> arguments \<Rightarrow> string list option \<Rightarrow> state \<Rightarrow> unit run" where
  \<comment> \<open>lines 305 to 315; \<open>len(None)\<close> raises TypeError\<close>
  "prescan pl a filters st =
     (if recursive a \<and> remove_ignored_files a then
        (case filters of
           None \<Rightarrow> Raised TypeError st
         | Some flts \<Rightarrow>
             if length flts > 0
             then prescan_walk pl (test a) (walk_topdown (src_dir a) (os_walk pl st (src_dir a))) flts st
             else Ok () st)
      else Ok () st)"

definition sortPhotos :: "platform \<Rightarrow> (nat \<Rightarrow> datetime) \<Rightarrow> arguments \<Rightarrow> state \<Rightarrow> nat run" where
  "sortPhotos pl clock a st =
     (if \<not> os_path_exists st (src_dir a) then Raised SourceDirMissing st
      else
        (case setup_tags a of (args0, groups, tags) \<Rightarrow>
           (let args = args0 @ (if recursive a then [''-r''] else []) @ [src_dir a]
            in case split_ignore_list (ignore_list a) of
                 Inl e \<Rightarrow> Raised e st
               | Inr filters \<Rightarrow>
                   (case prescan pl a filters st of
                      Raised e st1 \<Rightarrow> Raised e st1
                    | Ok u st1 \<Rightarrow>
                        (let metadata = exiftool pl args st1;
                             num_files = length metadata;
                             st2 = (if test a then st1\<lparr>test_file_dict := []\<rparr> else st1)
                         in case process_all pl a groups tags filters clock 0 metadata st2 of
                              Raised e st3 \<Rightarrow> Raised e st3
                            | Ok u st3 \<Rightarrow>
                                if remove_empty_dirs a then
                                  (case cleanup_dir (test a) (src_dir a) (src_dir a)
                                          (os_walk pl st3 (src_dir a)) st3 of
                                     Raised e st4 \<Rightarrow> Raised e st4
                                   | Ok gone st4 \<Rightarrow> Ok num_files st4)
                                else Ok num_files st3)))))"

section \<open>A concrete platform for running the model\<close>

text \<open>
  Simple instances of the library calls, used to run the model on examples:
  \<open>fnmatch\<close> for patterns without bracket expressions, and \<open>strftime\<close> in the C locale
  for the directives \<open>%Y %m %d %b %H %M %S\<close>.
\<close>

fun glob_match :: "string \<Rightarrow> string \<Rightarrow> bool" where
  \<comment> \<open>pattern, then name: \<open>*\<close> is any run of characters, \<open>?\<close> any one character\<close>
  "glob_match [] [] = True"
| "glob_match [] (c # cs) = False"
| "glob_match (p # ps) [] = (p = CHR ''*'' \<and> glob_match ps [])"
| "glob_match (p # ps) (c # cs) =
     (if p = CHR ''*'' then glob_match ps (c # cs) \<or> glob_match (p # ps) cs
      else (p = CHR ''?'' \<or> p = c) \<and> glob_match ps cs)"

definition fnmatch_glob :: "string \<Rightarrow> string \<Rightarrow> bool" where
  "fnmatch_glob name pat = glob_match pat name"

definition zero_pad :: "nat \<Rightarrow> string \<Rightarrow> string" where
  "zero_pad w s = replicate (w - length s) CHR ''0'' @ s"

definition month_abbr :: "int \<Rightarrow> string" where
  "month_abbr m =
     (if m = 1 then ''Jan'' else if m = 2 then ''Feb'' else if m = 3 then ''Mar''
      else if m = 4 then ''Apr'' else if m = 5 then ''May'' else if m = 6 then ''Jun''
      else if m = 7 then ''Jul'' else if m = 8 then ''Aug'' else if m = 9 then ''Sep''
      else if m = 10 then ''Oct'' else if m = 11 then ''Nov'' else ''Dec'')"

definition directive :: "char \<Rightarrow> datetime \<Rightarrow> string" where
  "directive c t =
     (if c = CHR ''Y'' then zero_pad 4 (py_str_int (year t))
      else if c = CHR ''m'' then zero_pad 2 (py_str_int (month t))
      else if c = CHR ''d'' then zero_pad 2 (py_str_int (day t))
      else if c = CHR ''b'' then month_abbr (month t)
      else if c = CHR ''H'' then zero_pad 2 (py_str_int (hour t))
      else if c = CHR ''M'' then zero_pad 2 (py_str_int (minute t))
      else if c = CHR ''S'' then zero_pad 2 (py_str_int (second t))
      else [CHR ''%'', c])"

fun strftime_c :: "string \<Rightarrow> datetime \<Rightarrow> string" where
  "strftime_c [] t = []"
| "strftime_c [c] t = [c]"
| "strftime_c (c # d # cs) t =
     (if c = CHR ''%'' then directive d t @ strftime_c cs t else c # strftime_c (d # cs) t)"

definition posix_platform :: "metadata list \<Rightarrow> dirtree \<Rightarrow> platform" where
  \<comment> \<open>a platform on which ExifTool returns \<open>records\<close> and \<open>os.walk\<close> lists \<open>tree\<close>\<close>
  "posix_platform records tree =
     \<lparr>strftime_ok = strftime_py3, strftime = strftime_c, fnmatch = fnmatch_glob,
      exiftool = (\<lambda>args st. records), os_walk = (\<lambda>st p. tree)\<rparr>"

definition default_arguments :: "string \<Rightarrow> string \<Rightarrow> arguments" where
  \<comment> \<open>the defaults of the command line (lines 530 to 579) for a source and a destination\<close>
  "default_arguments src dst =
     \<lparr>src_dir = src, dest_dir = dst, sort_format = ''%Y/%m-%b'', rename_format = None,
      recursive = False, copy_files = False, test = False, remove_duplicates = True,
      day_begins = 0, additional_groups_to_ignore = [], additional_tags_to_ignore = [],
      use_only_groups = None, use_only_tags = None, ignore_list = IgnNone,
      remove_ignored_files = False, remove_empty_dirs = False, verbose = True\<rparr>"

definition noon_2026 :: datetime where
  \<comment> \<open>a value of \<open>datetime.now()\<close> for the examples\<close>
  "noon_2026 = \<lparr>year = 2026, month = 11, day = 4, hour = 12, minute = 0, second = 0,
                 microsecond = 250000\<rparr>"

definition example_record :: metadata where
  "example_record =
     [(''SourceFile'', One (Str ''src/a.jpg'')),
      (''EXIF:CreateDate'', One (Str ''2020:05:01 10:00:00'')),
      (''QuickTime:ModifyDate'', One (Str ''2020:04:01 09:00:00''))]"

definition future_record :: metadata where
  \<comment> \<open>a file whose only date lies after \<open>noon_2026\<close>\<close>
  "future_record =
     [(''SourceFile'', One (Str ''src/a.jpg'')),
      (''EXIF:CreateDate'', One (Str ''2099:05:01 10:00:00''))]"

definition valid_datetime :: "datetime \<Rightarrow> bool" where
  \<comment> \<open>the values the type \<open>datetime\<close> has\<close>
  "valid_datetime t =
     (1 \<le> year t \<and> year t \<le> 9999 \<and> 1 \<le> month t \<and> month t \<le> 12
      \<and> 1 \<le> day t \<and> day t \<le> days_in_month (year t) (month t)
      \<and> 0 \<le> hour t \<and> hour t \<le> 23 \<and> 0 \<le> minute t \<and> minute t \<le> 59
      \<and> 0 \<le> second t \<and> second t \<le> 59 \<and> 0 \<le> microsecond t \<and> microsecond t \<le> 999999)"

section \<open>Predicates used in the statements\<close>

definition cleanup_frame ::
  "bool \<Rightarrow> string \<Rightarrow> (string \<times> string list \<times> string list) list \<Rightarrow> state \<Rightarrow> state \<Rightarrow> bool" where
  \<comment> \<open>what a part of the clean-up walk may change between two states: no file, not the
      ledger, nothing at all in test mode, and of the directories only ones the walk lists
      with no file names, the source directory apart\<close>
  "cleanup_frame tst src walked st st' =
     (files st' = files st \<and> test_file_dict st' = test_file_dict st
      \<and> (tst \<longrightarrow> st' = st)
      \<and> set (dirs st') \<subseteq> set (dirs st)
      \<and> (\<forall>p \<in> set (dirs st). p \<in> set (dirs st')
            \<or> (p \<noteq> src \<and> (\<exists>dirnames. (p, dirnames, []) \<in> set walked))))"

definition all_digits :: "string \<Rightarrow> bool" where
  "all_digits s = (s \<noteq> [] \<and> list_all is_digit s)"

definition empty_source_tree :: dirtree where
  \<comment> \<open>a source directory that holds one empty directory and nothing else\<close>
  "empty_source_tree = Dir [] [(''a'', Dir [] [])]"

definition empty_source_state :: state where
  "empty_source_state = \<lparr>files = [], dirs = [''src'', ''src/a'', ''dest''], test_file_dict = []\<rparr>"

section \<open>Example runs\<close>

definition fixed_clock :: "nat \<Rightarrow> datetime" where
  "fixed_clock idx = noon_2026"

definition thumbs_record :: metadata where
  "thumbs_record =
     [(''SourceFile'', One (Str ''src/Thumbs.db'')),
      (''EXIF:CreateDate'', One (Str ''2020:01:15 10:30:00''))]"

definition thumbs_state :: state where
  "thumbs_state =
     \<lparr>files = [(''src/Thumbs.db'', \<lparr>content = ''abc'', mtime = 5\<rparr>)],
      dirs = [''src'', ''dest''], test_file_dict = []\<rparr>"

definition thumbs_platform :: platform where
  "thumbs_platform = posix_platform [thumbs_record] (Dir [''Thumbs.db''] [])"

definition ignore_db_arguments :: arguments where
  \<comment> \<open>\<open>sortphotos.py --ignore '*.db' src dest\<close>\<close>
  "ignore_db_arguments = (default_arguments ''src'' ''dest'')\<lparr>ignore_list := IgnStr ''*.db''\<rparr>"

definition remove_db_arguments :: arguments where
  \<comment> \<open>\<open>sortphotos.py --ignore '*.db' --remove-ignored-files src dest\<close>\<close>
  "remove_db_arguments =
     (default_arguments ''src'' ''dest'')\<lparr>ignore_list := IgnStr ''*.db'',
                                           remove_ignored_files := True\<rparr>"

definition only_exif_arguments :: arguments where
  \<comment> \<open>\<open>sortphotos.py --use-only-groups EXIF --ignore-tags EXIF:CreateDate src dest\<close>\<close>
  "only_exif_arguments =
     (default_arguments ''src'' ''dest'')\<lparr>use_only_groups := Some [''EXIF''],
                                           additional_tags_to_ignore := [''EXIF:CreateDate'']\<rparr>"

definition list_ignore_arguments :: "string \<Rightarrow> arguments" where
  \<comment> \<open>a call of \<open>sortPhotos\<close> that passes the list \<open>[]\<close> as \<open>ignore_list\<close>\<close>
  "list_ignore_arguments src = (default_arguments src ''dest'')\<lparr>ignore_list := IgnList []\<rparr>"

definition tried_name :: "string \<Rightarrow> string \<Rightarrow> string \<Rightarrow> nat \<Rightarrow> string" where
  \<comment> \<open>the names the collision loop tries, in order: the destination itself, then the
      destination with the suffix \<open>_1\<close>, \<open>_2\<close>, ... before its extension\<close>
  "tried_name dest_file root ext k = (if k = 0 then dest_file else candidate root ext k)"

definition name_blocked :: "bool \<Rightarrow> bool \<Rightarrow> state \<Rightarrow> string \<Rightarrow> string \<Rightarrow> bool" where
  \<comment> \<open>the name is in use, by a file that \<open>filecmp.cmp\<close> does not take for the source or
      with duplicates kept\<close>
  "name_blocked tst rmdup st src_file p =
     (case dest_compare_of tst st p of
        None \<Rightarrow> False
      | Some dest_compare \<Rightarrow>
          (if rmdup then filecmp_cmp st src_file dest_compare = Inr False else True))"

definition name_settles :: "bool \<Rightarrow> bool \<Rightarrow> state \<Rightarrow> string \<Rightarrow> string \<Rightarrow> bool" where
  \<comment> \<open>the name is free, or in use by a file that \<open>filecmp.cmp\<close> takes for the source while
      duplicates are removed\<close>
  "name_settles tst rmdup st src_file p =
     (case dest_compare_of tst st p of
        None \<Rightarrow> True
      | Some dest_compare \<Rightarrow> rmdup \<and> filecmp_cmp st src_file dest_compare = Inr True)"

definition two_files_state :: state where
  \<comment> \<open>two different files of the same name and date, in two source directories\<close>
  "two_files_state =
     \<lparr>files = [(''src/x/a.jpg'', \<lparr>content = ''first'', mtime = 5\<rparr>),
               (''src/y/a.jpg'', \<lparr>content = ''second!'', mtime = 6\<rparr>)],
      dirs = [''src'', ''src/x'', ''src/y'', ''dest''], test_file_dict = []\<rparr>"

definition two_files_records :: "metadata list" where
  "two_files_records =
     [[(''SourceFile'', One (Str ''src/x/a.jpg'')),
       (''EXIF:CreateDate'', One (Str ''2020:01:15 10:30:00''))],
      [(''SourceFile'', One (Str ''src/y/a.jpg'')),
       (''EXIF:CreateDate'', One (Str ''2020:01:15 10:30:00''))]]"

definition first_placed_state :: state where
  \<comment> \<open>\<open>two_files_state\<close> after the first of the two files was moved\<close>
  "first_placed_state =
     \<lparr>files = [(''dest/2020/01-Jan/a.jpg'', \<lparr>content = ''first'', mtime = 5\<rparr>),
               (''src/y/a.jpg'', \<lparr>content = ''second!'', mtime = 6\<rparr>)],
      dirs = [''src'', ''src/x'', ''src/y'', ''dest'', ''dest/2020'', ''dest/2020/01-Jan''],
      test_file_dict = []\<rparr>"

definition same_stat_state :: state where
  \<comment> \<open>two files of the same name, size and modification time, and of different content\<close>
  "same_stat_state =
     \<lparr>files = [(''src/x/a.jpg'', \<lparr>content = ''first'', mtime = 5\<rparr>),
               (''src/y/a.jpg'', \<lparr>content = ''other'', mtime = 5\<rparr>)],
      dirs = [''src'', ''src/x'', ''src/y'', ''dest''], test_file_dict = []\<rparr>"

definition no_space :: "string \<Rightarrow> bool" where
  "no_space s = list_all (\<lambda>c. \<not> py_isspace c) s"

definition no_tz_sep :: "string \<Rightarrow> bool" where
  "no_tz_sep s = list_all (\<lambda>c. \<not> is_tz_sep c) s"

section \<open>The oldest-timestamp selector\<close>

subsection \<open>The order on timestamps\<close>

lemma dt_key_inj: "dt_key a = dt_key b \<Longrightarrow> a = (b::datetime)"
  by (cases a, cases b) (simp add: dt_key_def)

lemma dt_less_irrefl: "\<not> dt_less a a"
  by (simp add: dt_less_def)

lemma dt_less_trans: "dt_less a b \<Longrightarrow> dt_less b c \<Longrightarrow> dt_less a c"
  unfolding dt_less_def by (rule less_trans)

lemma dt_less_total: "\<not> dt_less a b \<Longrightarrow> a \<noteq> b \<Longrightarrow> dt_less b a"
  unfolding dt_less_def using dt_key_inj[of a b] by (meson linorder_neqE)

lemma oldest_step_skip:
  "\<not> key_considered ig it key \<Longrightarrow> oldest_step ok data ig it st key = Inr st"
  by (cases st) (simp add: oldest_step_def)

lemma oldest_step_none:
  "tag_date ok data key = Inr None \<Longrightarrow> oldest_step ok data ig it st key = Inr st"
  by (cases st) (simp add: oldest_step_def err_bind_def)

lemma oldest_step_some:
  "key_considered ig it key \<Longrightarrow> tag_date ok data key = Inr (Some d) \<Longrightarrow>
   oldest_step ok data ig it (av, cur, ks) key =
     Inr (if dt_less d cur then (True, d, [key])
          else if d = cur then (av, cur, ks @ [key]) else (av, cur, ks))"
  by (simp add: oldest_step_def err_bind_def)

text \<open>
  The invariant of the loop of line 133, started in any state: \<open>oldest_date\<close> ends as the
  least of its first value and the dates of the considered keys, and \<open>oldest_keys\<close> holds
  the keys with that date, after the keys it held when the date did not change.
\<close>

lemma oldest_loop_invariant:
  assumes "\<forall>key \<in> set keys. key_considered ig it key \<longrightarrow> (\<exists>r. tag_date ok data key = Inr r)"
  shows "\<exists>cur'.
           oldest_loop ok data ig it (av, cur, ks) keys =
             Inr (av \<or> cur' \<noteq> cur, cur',
                  (if cur' = cur then ks else [])
                  @ filter (\<lambda>k. key_considered ig it k \<and> tag_date ok data k = Inr (Some cur')) keys)
           \<and> (cur' = cur \<or> (\<exists>k \<in> set keys. key_considered ig it k \<and> tag_date ok data k = Inr (Some cur')))
           \<and> \<not> dt_less cur cur'
           \<and> (\<forall>k \<in> set keys. \<forall>d. key_considered ig it k \<and> tag_date ok data k = Inr (Some d)
                  \<longrightarrow> \<not> dt_less d cur')"
  using assms
proof (induction keys arbitrary: av cur ks)
  case Nil
  show ?case by (simp add: dt_less_irrefl)
next
  case (Cons key keys)
  let ?C = "\<lambda>k. key_considered ig it k"
  let ?T = "\<lambda>k. tag_date ok data k"
  have rest: "\<forall>k \<in> set keys. ?C k \<longrightarrow> (\<exists>r. ?T k = Inr r)"
    using Cons.prems by simp
  consider (skip) "\<not> (?C key \<and> (\<exists>d. ?T key = Inr (Some d)))"
      "oldest_step ok data ig it (av, cur, ks) key = Inr (av, cur, ks)"
    | (lt) d where "?C key" "?T key = Inr (Some d)" "dt_less d cur"
    | (eq) "?C key" "?T key = Inr (Some cur)"
    | (gt) d where "?C key" "?T key = Inr (Some d)" "dt_less cur d"
  proof (cases "?C key")
    case False
    then show ?thesis using skip by (simp add: oldest_step_skip)
  next
    case True
    with Cons.prems obtain r where r: "?T key = Inr r" by auto
    show ?thesis
    proof (cases r)
      case None
      with r show ?thesis using skip by (simp add: oldest_step_none)
    next
      case (Some d)
      with r True show ?thesis
        using lt[of d] eq gt[of d] dt_less_total[of d cur] by blast
    qed
  qed
  then show ?case
  proof cases
    case skip
    from Cons.IH[OF rest, of av cur ks] obtain cur' where
      "oldest_loop ok data ig it (av, cur, ks) keys =
         Inr (av \<or> cur' \<noteq> cur, cur',
              (if cur' = cur then ks else []) @ filter (\<lambda>k. ?C k \<and> ?T k = Inr (Some cur')) keys)"
      "cur' = cur \<or> (\<exists>k \<in> set keys. ?C k \<and> ?T k = Inr (Some cur'))"
      "\<not> dt_less cur cur'"
      "\<forall>k \<in> set keys. \<forall>d. ?C k \<and> ?T k = Inr (Some d) \<longrightarrow> \<not> dt_less d cur'"
      by blast
    with skip show ?thesis
      by (intro exI[of _ cur']) (auto simp: err_bind_def)
  next
    case lt
    have step: "oldest_step ok data ig it (av, cur, ks) key = Inr (True, d, [key])"
      using lt by (simp add: oldest_step_some)
    from Cons.IH[OF rest, of True d "[key]"] obtain cur' where ih:
      "oldest_loop ok data ig it (True, d, [key]) keys =
         Inr (True \<or> cur' \<noteq> d, cur',
              (if cur' = d then [key] else []) @ filter (\<lambda>k. ?C k \<and> ?T k = Inr (Some cur')) keys)"
      "cur' = d \<or> (\<exists>k \<in> set keys. ?C k \<and> ?T k = Inr (Some cur'))"
      "\<not> dt_less d cur'"
      "\<forall>k \<in> set keys. \<forall>e. ?C k \<and> ?T k = Inr (Some e) \<longrightarrow> \<not> dt_less e cur'"
      by blast
    have lower: "dt_less cur' cur"
      using ih(3) lt(3) dt_less_total[of d cur'] dt_less_trans[of cur' d cur] by blast
    then have "cur' \<noteq> cur" "\<not> dt_less cur cur'"
      using dt_less_irrefl dt_less_trans by blast+
    with ih lt show ?thesis
      by (intro exI[of _ cur']) (auto simp: err_bind_def step)
  next
    case eq
    have step: "oldest_step ok data ig it (av, cur, ks) key = Inr (av, cur, ks @ [key])"
      using eq by (simp add: oldest_step_some dt_less_irrefl)
    from Cons.IH[OF rest, of av cur "ks @ [key]"] obtain cur' where ih:
      "oldest_loop ok data ig it (av, cur, ks @ [key]) keys =
         Inr (av \<or> cur' \<noteq> cur, cur',
              (if cur' = cur then ks @ [key] else []) @ filter (\<lambda>k. ?C k \<and> ?T k = Inr (Some cur')) keys)"
      "cur' = cur \<or> (\<exists>k \<in> set keys. ?C k \<and> ?T k = Inr (Some cur'))"
      "\<not> dt_less cur cur'"
      "\<forall>k \<in> set keys. \<forall>e. ?C k \<and> ?T k = Inr (Some e) \<longrightarrow> \<not> dt_less e cur'"
      by blast
    with eq show ?thesis
      by (intro exI[of _ cur']) (auto simp: err_bind_def step)
  next
    case gt
    have step: "oldest_step ok data ig it (av, cur, ks) key = Inr (av, cur, ks)"
      using gt dt_less_irrefl dt_less_trans[of d cur d]
      by (auto simp: oldest_step_some)
    from Cons.IH[OF rest, of av cur ks] obtain cur' where ih:
      "oldest_loop ok data ig it (av, cur, ks) keys =
         Inr (av \<or> cur' \<noteq> cur, cur',
              (if cur' = cur then ks else []) @ filter (\<lambda>k. ?C k \<and> ?T k = Inr (Some cur')) keys)"
      "cur' = cur \<or> (\<exists>k \<in> set keys. ?C k \<and> ?T k = Inr (Some cur'))"
      "\<not> dt_less cur cur'"
      "\<forall>k \<in> set keys. \<forall>e. ?C k \<and> ?T k = Inr (Some e) \<longrightarrow> \<not> dt_less e cur'"
      by blast
    have "\<not> dt_less d cur'"
      using ih(3) gt(3) dt_less_trans[of cur d cur'] by blast
    moreover have "d \<noteq> cur'"
      using ih(3) gt(3) by blast
    ultimately show ?thesis
      using ih gt by (intro exI[of _ cur']) (auto simp: err_bind_def step)
  qed
qed

text \<open>
  C1, as the code has it. The search starts from \<open>datetime.now()\<close>, not from a value above
  every timestamp. For a record with a SourceFile none of whose considered tags makes the
  parser raise, and with a considered tag that parses to a timestamp earlier than the
  current time: the selector returns the earliest timestamp of the considered tags, and
  the keys are exactly the considered tags with that timestamp, in the record's order.
\<close>

theorem get_oldest_timestamp_earliest_before_now:
  assumes src: "map_of data ''SourceFile'' = Some src"
    and no_raise:
      "\<forall>key \<in> set (map fst data).
         key_considered (''ICC_Profile'' # groups) (''SourceFile'' # ''XMP:HistoryWhen'' # tags) key
         \<longrightarrow> (\<exists>r. tag_date ok data key = Inr r)"
    and before:
      "\<exists>key \<in> set (map fst data). \<exists>d.
         key_considered (''ICC_Profile'' # groups) (''SourceFile'' # ''XMP:HistoryWhen'' # tags) key
         \<and> tag_date ok data key = Inr (Some d) \<and> dt_less d now"
  shows "\<exists>best.
           get_oldest_timestamp ok now data groups tags =
             Inr (src, Some best,
                  filter (\<lambda>key. key_considered (''ICC_Profile'' # groups)
                                   (''SourceFile'' # ''XMP:HistoryWhen'' # tags) key
                                 \<and> tag_date ok data key = Inr (Some best)) (map fst data))
           \<and> (\<exists>key \<in> set (map fst data).
                  key_considered (''ICC_Profile'' # groups)
                    (''SourceFile'' # ''XMP:HistoryWhen'' # tags) key
                  \<and> tag_date ok data key = Inr (Some best))
           \<and> (\<forall>key \<in> set (map fst data). \<forall>d.
                  key_considered (''ICC_Profile'' # groups)
                    (''SourceFile'' # ''XMP:HistoryWhen'' # tags) key
                  \<and> tag_date ok data key = Inr (Some d) \<longrightarrow> \<not> dt_less d best)"
proof -
  let ?G = "''ICC_Profile'' # groups"
  let ?T = "''SourceFile'' # ''XMP:HistoryWhen'' # tags"
  from oldest_loop_invariant[OF no_raise, of False now "[]"] obtain best where
    run: "oldest_loop ok data ?G ?T (False, now, []) (map fst data) =
            Inr (False \<or> best \<noteq> now, best,
                 (if best = now then [] else [])
                 @ filter (\<lambda>k. key_considered ?G ?T k \<and> tag_date ok data k = Inr (Some best))
                     (map fst data))"
    and mem: "best = now \<or> (\<exists>k \<in> set (map fst data).
                 key_considered ?G ?T k \<and> tag_date ok data k = Inr (Some best))"
    and least: "\<forall>k \<in> set (map fst data). \<forall>d.
                 key_considered ?G ?T k \<and> tag_date ok data k = Inr (Some d) \<longrightarrow> \<not> dt_less d best"
    by blast
  from before least have ne: "best \<noteq> now"
    by blast
  have "get_oldest_timestamp ok now data groups tags =
          Inr (src, Some best,
               filter (\<lambda>k. key_considered ?G ?T k \<and> tag_date ok data k = Inr (Some best))
                 (map fst data))"
    using ne by (simp add: get_oldest_timestamp_def src run err_bind_def)
  with mem ne least show ?thesis
    by blast
qed

theorem get_oldest_timestamp_earliest_before_now_witness:
  "get_oldest_timestamp strftime_py3 noon_2026 example_record [''File''] [] =
     Inr (One (Str ''src/a.jpg''),
          Some \<lparr>year = 2020, month = 4, day = 1, hour = 9, minute = 0, second = 0,
                microsecond = 0\<rparr>,
          [''QuickTime:ModifyDate''])"
proof -
  have keys: "map fst example_record = [''SourceFile'', ''EXIF:CreateDate'', ''QuickTime:ModifyDate'']"
    by (simp add: example_record_def)
  have src: "map_of example_record ''SourceFile'' = Some (One (Str ''src/a.jpg''))"
    by (simp add: example_record_def)
  have t0: "\<not> key_considered [''ICC_Profile'', ''File''] [''SourceFile'', ''XMP:HistoryWhen'']
              ''SourceFile''"
    by (simp add: key_considered_def)
  have t1: "tag_date strftime_py3 example_record ''EXIF:CreateDate'' =
              Inr (Some \<lparr>year = 2020, month = 5, day = 1, hour = 10, minute = 0, second = 0,
                         microsecond = 0\<rparr>)"
    by code_simp
  have t2: "tag_date strftime_py3 example_record ''QuickTime:ModifyDate'' =
              Inr (Some \<lparr>year = 2020, month = 4, day = 1, hour = 9, minute = 0, second = 0,
                         microsecond = 0\<rparr>)"
    by code_simp
  have c2: "key_considered [''ICC_Profile'', ''File''] [''SourceFile'', ''XMP:HistoryWhen'']
              ''QuickTime:ModifyDate''"
    by code_simp
  have lt: "dt_less \<lparr>year = 2020, month = 4, day = 1, hour = 9, minute = 0, second = 0,
                     microsecond = 0\<rparr> noon_2026"
    by code_simp
  have no_raise:
    "\<forall>key \<in> set (map fst example_record).
       key_considered (''ICC_Profile'' # [''File'']) (''SourceFile'' # ''XMP:HistoryWhen'' # []) key
       \<longrightarrow> (\<exists>r. tag_date strftime_py3 example_record key = Inr r)"
    using t0 t1 t2 by (simp add: keys)
  have before:
    "\<exists>key \<in> set (map fst example_record). \<exists>d.
       key_considered (''ICC_Profile'' # [''File'']) (''SourceFile'' # ''XMP:HistoryWhen'' # []) key
       \<and> tag_date strftime_py3 example_record key = Inr (Some d) \<and> dt_less d noon_2026"
    using c2 t2 lt by (simp add: keys)
  have run: "get_oldest_timestamp strftime_py3 noon_2026 example_record [''File''] [] =
     Inr (One (Str ''src/a.jpg''),
          Some \<lparr>year = 2020, month = 4, day = 1, hour = 9, minute = 0, second = 0,
                microsecond = 0\<rparr>,
          [''QuickTime:ModifyDate''])"
    by code_simp
  from get_oldest_timestamp_earliest_before_now[OF src no_raise before] run
  show ?thesis
    by simp
qed

text \<open>
  C1 as the specification states it fails on a timestamp after the current time: the tag
  parses to a valid timestamp, and the selector answers that no date is available.
\<close>

theorem get_oldest_timestamp_ignores_future_timestamp:
  "tag_date strftime_py3 future_record ''EXIF:CreateDate'' =
     Inr (Some \<lparr>year = 2099, month = 5, day = 1, hour = 10, minute = 0, second = 0,
                microsecond = 0\<rparr>)
   \<and> get_oldest_timestamp strftime_py3 noon_2026 future_record [] [] =
       Inr (One (Str ''src/a.jpg''), None, [])"
  by code_simp

section \<open>The day-boundary adjuster\<close>

subsection \<open>The calendar: ordinals and dates\<close>

text \<open>
  \<open>ord2ymd\<close> inverts \<open>ymd2ord\<close> and yields a date of the calendar; the ordinal of a
  \<open>datetime\<close> lies between 1 and \<open>max_ordinal\<close>.
\<close>

lemma div_known: "0 \<le> s \<Longrightarrow> s < k \<Longrightarrow> (k * q + s) div k = (q::int)"
  by (simp add: div_pos_pos_trivial)

lemma mod_known: "0 \<le> s \<Longrightarrow> s < k \<Longrightarrow> (k * q + s) mod k = (s::int)"
  by (simp add: mod_pos_pos_trivial)

lemma days_before_year_decomposed:
  assumes "0 \<le> b" "b \<le> 3" "0 \<le> c" "c \<le> 24" "0 \<le> e" "e \<le> 3"
  shows "days_before_year (400 * a + 100 * b + 4 * c + e + 1)
         = 146097 * a + 36524 * b + 1461 * c + 365 * e"
proof -
  let ?Y = "400 * a + 100 * b + 4 * c + e"
  have e4: "?Y = 4 * (100 * a + 25 * b + c) + e" by simp
  have d4: "?Y div 4 = 100 * a + 25 * b + c"
    by (subst e4, rule div_known) (use assms in auto)
  have e100: "?Y = 100 * (4 * a + b) + (4 * c + e)" by simp
  have d100: "?Y div 100 = 4 * a + b"
    by (subst e100, rule div_known) (use assms in auto)
  have e400: "?Y = 400 * a + (100 * b + 4 * c + e)" by simp
  have d400: "?Y div 400 = a"
    by (subst e400, rule div_known) (use assms in auto)
  show ?thesis
    by (simp add: days_before_year_def d4 d100 d400)
qed

lemma is_leap_decomposed:
  assumes "0 \<le> b" "b \<le> 3" "0 \<le> c" "c \<le> 24"
  shows "is_leap (400 * a + 100 * b + 4 * c + 4) \<longleftrightarrow> (c = 24 \<longrightarrow> b = 3)"
proof -
  let ?y = "400 * a + 100 * b + 4 * c + 4"
  have e4: "?y = 4 * (100 * a + 25 * b + c + 1)" by simp
  have m4: "?y mod 4 = 0" by (subst e4) simp
  show ?thesis
  proof (cases "c = 24")
    case False
    have e100: "?y = 100 * (4 * a + b) + (4 * c + 4)" by simp
    have "?y mod 100 = 4 * c + 4"
      by (subst e100, rule mod_known) (use assms False in auto)
    with assms False m4 show ?thesis by (simp add: is_leap_def)
  next
    case True
    have e100: "?y = 100 * (4 * a + b + 1)" using True by simp
    have m100: "?y mod 100 = 0" by (subst e100) simp
    show ?thesis
    proof (cases "b = 3")
      case b3: True
      have e400: "?y = 400 * (a + 1)" using True b3 by simp
      have "?y mod 400 = 0" by (subst e400) simp
      with m4 True b3 show ?thesis by (simp add: is_leap_def)
    next
      case False
      have e400: "?y = 400 * a + (100 * b + 100)" using True by simp
      have "?y mod 400 = 100 * b + 100"
        by (subst e400, rule mod_known) (use assms False in auto)
      with m100 assms False True show ?thesis by (simp add: is_leap_def)
    qed
  qed
qed


lemma days_in_month_simps:
  "days_in_month y 1 = 31" "days_in_month y 2 = (if is_leap y then 29 else 28)"
  "days_in_month y 3 = 31" "days_in_month y 4 = 30" "days_in_month y 5 = 31"
  "days_in_month y 6 = 30" "days_in_month y 7 = 31" "days_in_month y 8 = 31"
  "days_in_month y 9 = 30" "days_in_month y 10 = 31" "days_in_month y 11 = 30"
  "days_in_month y 12 = 31"
  by (simp_all add: days_in_month_def)

lemma days_before_month_simps:
  "days_before_month y 0 = 0"
  "days_before_month y 1 = 31"
  "days_before_month y 2 = 59 + (if is_leap y then 1 else 0)"
  "days_before_month y 3 = 90 + (if is_leap y then 1 else 0)"
  "days_before_month y 4 = 120 + (if is_leap y then 1 else 0)"
  "days_before_month y 5 = 151 + (if is_leap y then 1 else 0)"
  "days_before_month y 6 = 181 + (if is_leap y then 1 else 0)"
  "days_before_month y 7 = 212 + (if is_leap y then 1 else 0)"
  "days_before_month y 8 = 243 + (if is_leap y then 1 else 0)"
  "days_before_month y 9 = 273 + (if is_leap y then 1 else 0)"
  "days_before_month y 10 = 304 + (if is_leap y then 1 else 0)"
  "days_before_month y 11 = 334 + (if is_leap y then 1 else 0)"
  "days_before_month y 12 = 365 + (if is_leap y then 1 else 0)"
  by (simp_all add: eval_nat_numeral days_in_month_simps)

lemma find_month_unfold:
  "find_month y 11 1 r =
    (if r < 31 then (1, r + 1)
     else if r - 31 < days_in_month y 2 then (2, r - 31 + 1)
     else (let s = r - 31 - days_in_month y 2 in
       if s < 31 then (3, s + 1)
       else if s < 61 then (4, s - 31 + 1)
       else if s < 92 then (5, s - 61 + 1)
       else if s < 122 then (6, s - 92 + 1)
       else if s < 153 then (7, s - 122 + 1)
       else if s < 184 then (8, s - 153 + 1)
       else if s < 214 then (9, s - 184 + 1)
       else if s < 245 then (10, s - 214 + 1)
       else if s < 275 then (11, s - 245 + 1)
       else (12, s - 275 + 1)))"
  by (simp add: eval_nat_numeral days_in_month_simps Let_def)

lemma find_month_correct:
  assumes "0 \<le> r" "r < (if is_leap y then 366 else 365)"
    and "find_month y 11 1 r = (m, d)"
  shows "1 \<le> m \<and> m \<le> 12 \<and> 1 \<le> d \<and> d \<le> days_in_month y m
         \<and> days_before_month y (nat (m - 1)) + d = r + 1"
proof (cases "is_leap y")
  case True
  with assms show ?thesis
    unfolding find_month_unfold
    by (auto simp: days_in_month_simps days_before_month_simps Let_def split: if_splits)
next
  case False
  with assms show ?thesis
    unfolding find_month_unfold
    by (auto simp: days_in_month_simps days_before_month_simps Let_def split: if_splits)
qed


lemma ord2ymd_correct:
  assumes n: "1 \<le> n" and res: "ord2ymd n = (y, m, d)"
  shows "ymd2ord y m d = n \<and> 1 \<le> y \<and> 1 \<le> m \<and> m \<le> 12 \<and> 1 \<le> d \<and> d \<le> days_in_month y m"
proof -
  define n0 where "n0 = n - 1"
  define a where "a = n0 div 146097"
  define r where "r = n0 mod 146097"
  define b where "b = min 3 (r div 36524)"
  define r1 where "r1 = r - b * 36524"
  define c where "c = r1 div 1461"
  define r2 where "r2 = r1 mod 1461"
  define e where "e = min 3 (r2 div 365)"
  define r3 where "r3 = r2 - e * 365"
  have n0: "0 \<le> n0" using n by (simp add: n0_def)
  have a: "0 \<le> a" using n0 by (simp add: a_def pos_imp_zdiv_nonneg_iff)
  have r: "0 \<le> r" "r < 146097" "n0 = 146097 * a + r"
    by (simp_all add: r_def a_def)
  have rq: "r = 36524 * (r div 36524) + r mod 36524" "0 \<le> r mod 36524" "r mod 36524 < 36524"
    by simp_all
  have q0: "0 \<le> r div 36524" using r(1) by (simp add: pos_imp_zdiv_nonneg_iff)
  have b: "0 \<le> b" "b \<le> 3" using q0 by (simp_all add: b_def)
  have r1: "0 \<le> r1" "r1 \<le> 36524" "b < 3 \<Longrightarrow> r1 < 36524"
    using rq q0 r(2) unfolding r1_def b_def min_def by (auto split: if_splits)
  have r1q: "r1 = 1461 * c + r2" "0 \<le> r2" "r2 < 1461"
    by (simp_all add: c_def r2_def)
  have c0: "0 \<le> c"
    using r1(1) by (simp add: c_def pos_imp_zdiv_nonneg_iff)
  have c24: "c \<le> 24"
    using r1(2) r1q(1,2) by linarith
  note c = c0 c24
  have r2q: "r2 = 365 * (r2 div 365) + r2 mod 365" "0 \<le> r2 mod 365" "r2 mod 365 < 365"
    by simp_all
  have q2: "0 \<le> r2 div 365" using r1q(2) by (simp add: pos_imp_zdiv_nonneg_iff)
  have e: "0 \<le> e" "e \<le> 3" using q2 by (simp_all add: e_def)
  have r3: "0 \<le> r3" "r3 \<le> 365" "r3 = 365 \<Longrightarrow> e = 3 \<and> r2 = 1460"
    using r2q q2 r1q(3) unfolding r3_def e_def min_def by (auto split: if_splits)
  define y' where "y' = 400 * a + 100 * b + 4 * c + e + 1"
  have dby: "days_before_year y' = n0 - r3"
    unfolding y'_def days_before_year_decomposed[OF b c e]
    using r(3) r1q(1) by (simp add: r1_def r3_def)
  have leap: "r3 < (if is_leap y' then 366 else 365)"
  proof (cases "r3 = 365")
    case False
    with r3(2) show ?thesis by simp
  next
    case True
    with r3(3) have e3: "e = 3" and r2v: "r2 = 1460" by simp_all
    have "c = 24 \<longrightarrow> b = 3"
    proof
      assume "c = 24"
      with r1q(1) r2v have "r1 = 36524" by simp
      with r1(3) have "\<not> b < 3" by auto
      with b(2) show "b = 3" by simp
    qed
    then have "is_leap (400 * a + 100 * b + 4 * c + 4)"
      using is_leap_decomposed[OF b c, of a] by simp
    moreover have "y' = 400 * a + 100 * b + 4 * c + 4" by (simp add: y'_def e3)
    ultimately have "is_leap y'" by (simp only:)
    with True show ?thesis by simp
  qed
  obtain m' d' where fm: "find_month y' 11 1 r3 = (m', d')"
    by (cases "find_month y' 11 1 r3") auto
  have "ord2ymd n = (y', m', d')"
    unfolding ord2ymd_def Let_def
    using fm
    by (simp add: n0_def[symmetric] a_def[symmetric] r_def[symmetric] b_def[symmetric]
        r1_def[symmetric] c_def[symmetric] r2_def[symmetric] e_def[symmetric]
        r3_def[symmetric] y'_def[symmetric])
  with res have eq: "y = y'" "m = m'" "d = d'" by simp_all
  from find_month_correct[OF r3(1) leap fm]
  have fmc: "1 \<le> m'" "m' \<le> 12" "1 \<le> d'" "d' \<le> days_in_month y' m'"
    "days_before_month y' (nat (m' - 1)) + d' = r3 + 1"
    by simp_all
  have "ymd2ord y' m' d' = n"
    using dby fmc(5) by (simp add: ymd2ord_def n0_def)
  moreover have "1 \<le> y'"
    using a b c e by (simp add: y'_def)
  ultimately show ?thesis
    using fmc eq by simp
qed

lemma div_step:
  assumes "0 < k"
  shows "(x + 1) div k = x div k + (if (x + 1) mod k = 0 then 1 else (0::int))"
proof -
  define q where "q = x div k"
  define s where "s = x mod k"
  have x: "x = k * q + s" and s: "0 \<le> s" "s < k"
    using assms by (simp_all add: q_def s_def)
  show ?thesis
  proof (cases "s + 1 = k")
    case True
    then have e: "x + 1 = k * (q + 1)"
      using x by (simp add: algebra_simps)
    have "(x + 1) div k = q + 1" "(x + 1) mod k = 0"
      using assms by (simp_all add: e)
    then show ?thesis by (simp add: q_def)
  next
    case False
    have e: "x + 1 = k * q + (s + 1)"
      using x by simp
    have "(x + 1) div k = q"
      by (subst e, rule div_known) (use s False in auto)
    moreover have "(x + 1) mod k = s + 1"
      by (subst e, rule mod_known) (use s False in auto)
    ultimately show ?thesis
      using s by (simp add: q_def)
  qed
qed

lemma mod_400_100: "(y::int) mod 400 = 0 \<Longrightarrow> y mod 100 = 0"
proof -
  assume "y mod 400 = 0"
  then have "400 dvd y" by (simp add: mod_eq_0_iff_dvd)
  moreover have "(100::int) dvd 400" by simp
  ultimately have "100 dvd y" by (rule dvd_trans[rotated])
  then show ?thesis by (simp add: mod_eq_0_iff_dvd)
qed

lemma mod_100_4: "(y::int) mod 100 = 0 \<Longrightarrow> y mod 4 = 0"
proof -
  assume "y mod 100 = 0"
  then have "100 dvd y" by (simp add: mod_eq_0_iff_dvd)
  moreover have "(4::int) dvd 100" by simp
  ultimately have "4 dvd y" by (rule dvd_trans[rotated])
  then show ?thesis by (simp add: mod_eq_0_iff_dvd)
qed

lemma leap_step_arith:
  fixes A B C :: int
  assumes "A' = A + (if p4 then 1 else 0)" "B' = B + (if p100 then 1 else 0)"
    "C' = C + (if p400 then 1 else 0)" "p400 \<longrightarrow> p100" "p100 \<longrightarrow> p4"
  shows "y * 365 + A' - B' + C'
         = (y - 1) * 365 + A - B + C + (if p4 \<and> (\<not> p100 \<or> p400) then 366 else 365)"
  using assms by (cases p4; cases p100; cases p400) simp_all

lemma days_before_year_Suc:
  "days_before_year (y + 1) = days_before_year y + (if is_leap y then 366 else 365)"
proof -
  have a: "y div 4 = (y - 1) div 4 + (if y mod 4 = 0 then 1 else 0)"
    using div_step[of 4 "y - 1"] by simp
  have b: "y div 100 = (y - 1) div 100 + (if y mod 100 = 0 then 1 else 0)"
    using div_step[of 100 "y - 1"] by simp
  have c: "y div 400 = (y - 1) div 400 + (if y mod 400 = 0 then 1 else 0)"
    using div_step[of 400 "y - 1"] by simp
  have d: "y mod 400 = 0 \<longrightarrow> y mod 100 = 0" "y mod 100 = 0 \<longrightarrow> y mod 4 = 0"
    using mod_400_100[of y] mod_100_4[of y] by blast+
  have "days_before_year (y + 1) = y * 365 + y div 4 - y div 100 + y div 400"
    by (simp add: days_before_year_def)
  also have "\<dots> = (y - 1) * 365 + (y - 1) div 4 - (y - 1) div 100 + (y - 1) div 400
                  + (if y mod 4 = 0 \<and> (\<not> y mod 100 = 0 \<or> y mod 400 = 0) then 366 else 365)"
    by (rule leap_step_arith[OF a b c d])
  also have "\<dots> = days_before_year y + (if is_leap y then 366 else 365)"
    unfolding days_before_year_def is_leap_def by (rule refl)
  finally show ?thesis .
qed

lemma days_before_year_mono: "y \<le> z \<Longrightarrow> days_before_year y \<le> days_before_year z"
proof (induction "nat (z - y)" arbitrary: z)
  case 0
  then show ?case by simp
next
  case (Suc k)
  then have "k = nat ((z - 1) - y)" "y \<le> z - 1" by linarith+
  then have "days_before_year y \<le> days_before_year (z - 1)"
    using Suc.hyps(1) by blast
  also have "\<dots> \<le> days_before_year z"
    using days_before_year_Suc[of "z - 1"] by (simp split: if_splits)
  finally show ?case .
qed

lemma days_before_month_nonneg: "0 \<le> days_before_month y k"
  by (induction k) (simp_all add: days_in_month_def)

lemma month_cases:
  assumes "1 \<le> m" "m \<le> (12::int)"
  obtains "m = 1" | "m = 2" | "m = 3" | "m = 4" | "m = 5" | "m = 6"
    | "m = 7" | "m = 8" | "m = 9" | "m = 10" | "m = 11" | "m = 12"
proof -
  have "m = 1 \<or> m = 2 \<or> m = 3 \<or> m = 4 \<or> m = 5 \<or> m = 6 \<or> m = 7 \<or> m = 8 \<or> m = 9
        \<or> m = 10 \<or> m = 11 \<or> m = 12"
    using assms by presburger
  then show thesis
    using that by blast
qed

lemma day_of_year_bound:
  assumes "1 \<le> m" "m \<le> 12" "d \<le> days_in_month y m"
  shows "days_before_month y (nat (m - 1)) + d \<le> (if is_leap y then 366 else 365)"
  using assms(1,2)
  by (cases m rule: month_cases)
     (use assms(3) in \<open>auto simp: days_in_month_simps days_before_month_simps split: if_splits\<close>)

lemma days_before_year_values:
  "days_before_year 1 = 0" "days_before_year 2 = 365" "days_before_year 10000 = 3652059"
  by (simp_all add: days_before_year_def)

lemma toordinal_upper:
  assumes "valid_datetime t"
  shows "toordinal t \<le> max_ordinal"
proof -
  from assms have v: "year t \<le> 9999" "1 \<le> month t" "month t \<le> 12"
    "day t \<le> days_in_month (year t) (month t)"
    by (simp_all add: valid_datetime_def)
  have "toordinal t \<le> days_before_year (year t) + (if is_leap (year t) then 366 else 365)"
    using day_of_year_bound[OF v(2,3,4)] by (simp add: toordinal_def ymd2ord_def)
  also have "\<dots> = days_before_year (year t + 1)"
    by (simp add: days_before_year_Suc)
  also have "\<dots> \<le> days_before_year 10000"
    using v(1) by (intro days_before_year_mono) simp
  finally show ?thesis
    by (simp add: days_before_year_values max_ordinal_def)
qed

lemma toordinal_lower:
  assumes "valid_datetime t" "(year t, month t, day t) \<noteq> (1, 1, 1)"
  shows "2 \<le> toordinal t"
proof -
  from assms have v: "1 \<le> year t" "1 \<le> month t" "month t \<le> 12" "1 \<le> day t"
    by (simp_all add: valid_datetime_def)
  have y0: "0 \<le> days_before_year (year t)"
    using days_before_year_mono[OF v(1)] by (simp add: days_before_year_values)
  have m0: "0 \<le> days_before_month (year t) (nat (month t - 1))"
    by (rule days_before_month_nonneg)
  consider "2 \<le> year t" | "year t = 1" "2 \<le> month t" | "year t = 1" "month t = 1" "2 \<le> day t"
    using assms(2) v by force
  then show ?thesis
  proof cases
    case 1
    then have "365 \<le> days_before_year (year t)"
      using days_before_year_mono[of 2 "year t"] by (simp add: days_before_year_values)
    with m0 v(4) show ?thesis by (simp add: toordinal_def ymd2ord_def)
  next
    case 2
    have "31 \<le> days_before_month (year t) (nat (month t - 1))"
      using v(2,3)
      by (cases "month t" rule: month_cases)
         (use 2 in \<open>auto simp: days_before_month_simps days_in_month_simps\<close>)
    with y0 v(4) show ?thesis by (simp add: toordinal_def ymd2ord_def)
  next
    case 3
    with y0 m0 show ?thesis by (simp add: toordinal_def ymd2ord_def)
  qed
qed

lemma ord2ymd_year_upper:
  assumes "1 \<le> n" "n \<le> max_ordinal" "ord2ymd n = (y, m, d)"
  shows "y \<le> 9999"
proof (rule ccontr)
  assume "\<not> y \<le> 9999"
  then have "days_before_year 10000 \<le> days_before_year y"
    by (intro days_before_year_mono) simp
  moreover from ord2ymd_correct[OF assms(1,3)]
  have "ymd2ord y m d = n" "1 \<le> d" by simp_all
  moreover have "0 \<le> days_before_month y (nat (m - 1))"
    by (rule days_before_month_nonneg)
  ultimately show False
    using assms(2) by (simp add: ymd2ord_def days_before_year_values max_ordinal_def)
qed

lemma py_timedelta_hours:
  "0 \<le> h \<Longrightarrow> h \<le> 24 \<Longrightarrow> py_timedelta h 0 = Inr (h * 3600)"
proof -
  assume h: "0 \<le> h" "h \<le> 24"
  have e: "h * 3600 = 86400 * (if h = 24 then 1 else 0) + (if h = 24 then 0 else h * 3600)"
    by simp
  have "(h * 3600) div 86400 = (if h = 24 then 1 else 0)"
    by (subst e, rule div_known) (use h in auto)
  then show ?thesis
    by (simp add: py_timedelta_def Let_def)
qed

lemma dt_sub_into_previous_day:
  assumes valid: "valid_datetime t"
    and not_first: "(year t, month t, day t) \<noteq> (1, 1, 1)"
  shows "\<exists>t'. dt_sub t ((hour t + 1) * 3600) = Inr t'
            \<and> toordinal t' = toordinal t - 1 \<and> hour t' = 23 \<and> minute t' = minute t
            \<and> second t' = second t \<and> microsecond t' = microsecond t \<and> valid_datetime t'"
proof -
  from valid have v: "0 \<le> hour t" "hour t \<le> 23" "0 \<le> minute t" "minute t \<le> 59"
    "0 \<le> second t" "second t \<le> 59" "0 \<le> microsecond t" "microsecond t \<le> 999999"
    by (simp_all add: valid_datetime_def)
  define n where "n = toordinal t - 1"
  define w where "w = minute t * 60 + second t"
  have w: "0 \<le> w" "w < 3600" using v by (simp_all add: w_def)
  have n: "1 \<le> n" "n \<le> max_ordinal"
    using toordinal_lower[OF valid not_first] toordinal_upper[OF valid] by (simp_all add: n_def)
  define total where
    "total = toordinal t * 86400 + hour t * 3600 + minute t * 60 + second t + - ((hour t + 1) * 3600)"
  have total: "total = 86400 * n + (82800 + w)"
    by (simp add: total_def n_def w_def algebra_simps)
  have days: "total div 86400 = n"
    by (subst total, rule div_known) (use w in auto)
  have rest: "total mod 86400 = 82800 + w"
    by (subst total, rule mod_known) (use w in auto)
  have e1: "82800 + w = 3600 * 23 + w" by simp
  have hr: "(82800 + w) div 3600 = 23"
    by (subst e1, rule div_known) (use w in auto)
  have rm: "(82800 + w) mod 3600 = w"
    by (subst e1, rule mod_known) (use w in auto)
  have e2: "w = 60 * minute t + second t" by (simp add: w_def)
  have mi: "w div 60 = minute t"
    by (subst e2, rule div_known) (use v in auto)
  have e3: "82800 + w = 60 * (1380 + minute t) + second t" by (simp add: w_def)
  have se: "(82800 + w) mod 60 = second t"
    by (subst e3, rule mod_known) (use v in auto)
  obtain y' m' d' where o: "ord2ymd n = (y', m', d')"
    by (cases "ord2ymd n") auto
  from ord2ymd_correct[OF n(1) o] ord2ymd_year_upper[OF n o]
  have c: "ymd2ord y' m' d' = n" "1 \<le> y'" "1 \<le> m'" "m' \<le> 12" "1 \<le> d'"
    "d' \<le> days_in_month y' m'" "y' \<le> 9999"
    by simp_all
  define t' where
    "t' = \<lparr>year = y', month = m', day = d', hour = 23, minute = minute t, second = second t,
           microsecond = microsecond t\<rparr>"
  have "dt_sub t ((hour t + 1) * 3600) = Inr t'"
    unfolding dt_sub_def dt_add_def Let_def total_def[symmetric] days rest
    using n by (simp add: o hr rm mi se t'_def)
  moreover have "toordinal t' = toordinal t - 1"
    using c(1) by (simp add: toordinal_def t'_def n_def)
  moreover have "valid_datetime t'"
    using c v by (simp add: valid_datetime_def t'_def)
  ultimately show ?thesis
    by (intro exI[of _ t']) (simp add: t'_def)
qed

text \<open>
  C6, as the code has it. For every timestamp that is not on 0001-01-01, the first day a
  \<open>datetime\<close> can hold: if its hour is below \<open>day_begins\<close>, the adjuster returns the
  timestamp minus (hour + 1) hours, which is 23 o'clock of the previous calendar day with
  the minutes, seconds and microseconds unchanged; otherwise it returns the timestamp
  unchanged.
\<close>

theorem check_for_early_morning_photos_previous_day:
  assumes valid: "valid_datetime t"
    and not_first: "(year t, month t, day t) \<noteq> (1, 1, 1)"
  shows "(hour t < begins \<longrightarrow>
            (\<exists>t'. check_for_early_morning_photos t begins = Inr t'
                 \<and> dt_sub t ((hour t + 1) * 3600) = Inr t'
                 \<and> toordinal t' = toordinal t - 1 \<and> hour t' = 23 \<and> minute t' = minute t
                 \<and> second t' = second t \<and> microsecond t' = microsecond t \<and> valid_datetime t'))
         \<and> (begins \<le> hour t \<longrightarrow> check_for_early_morning_photos t begins = Inr t)"
proof -
  from valid have h: "0 \<le> hour t + 1" "hour t + 1 \<le> 24"
    by (simp_all add: valid_datetime_def)
  from dt_sub_into_previous_day[OF valid not_first] obtain t' where
    t': "dt_sub t ((hour t + 1) * 3600) = Inr t'"
      "toordinal t' = toordinal t - 1" "hour t' = 23" "minute t' = minute t"
      "second t' = second t" "microsecond t' = microsecond t" "valid_datetime t'"
    by blast
  have "err_bind (py_timedelta (hour t + 1) 0) (\<lambda>delta. dt_sub t delta) = Inr t'"
    unfolding py_timedelta_hours[OF h] err_bind_def using t'(1) by simp
  then have "hour t < begins \<Longrightarrow> check_for_early_morning_photos t begins = Inr t'"
    by (simp only: check_for_early_morning_photos_def if_True)
  moreover have "begins \<le> hour t \<Longrightarrow> check_for_early_morning_photos t begins = Inr t"
    by (simp add: check_for_early_morning_photos_def)
  ultimately show ?thesis
    using t' by blast
qed

theorem check_for_early_morning_photos_previous_day_witness:
  "check_for_early_morning_photos
     \<lparr>year = 2020, month = 3, day = 1, hour = 2, minute = 10, second = 5, microsecond = 7\<rparr> 3
   = Inr \<lparr>year = 2020, month = 2, day = 29, hour = 23, minute = 10, second = 5, microsecond = 7\<rparr>
   \<and> check_for_early_morning_photos
     \<lparr>year = 2020, month = 3, day = 1, hour = 5, minute = 10, second = 5, microsecond = 7\<rparr> 3
   = Inr \<lparr>year = 2020, month = 3, day = 1, hour = 5, minute = 10, second = 5, microsecond = 7\<rparr>"
proof -
  let ?t = "\<lparr>year = 2020, month = 3, day = 1, hour = 2, minute = 10, second = 5,
              microsecond = 7\<rparr>"
  let ?u = "\<lparr>year = 2020, month = 3, day = 1, hour = 5, minute = 10, second = 5,
              microsecond = 7\<rparr>"
  have vt: "valid_datetime ?t" and vu: "valid_datetime ?u"
    by (simp_all add: valid_datetime_def days_in_month_def)
  have nt: "(year ?t, month ?t, day ?t) \<noteq> (1, 1, 1)"
    and nu: "(year ?u, month ?u, day ?u) \<noteq> (1, 1, 1)"
    by simp_all
  have run: "check_for_early_morning_photos ?t 3
     = Inr \<lparr>year = 2020, month = 2, day = 29, hour = 23, minute = 10, second = 5,
            microsecond = 7\<rparr>"
    by code_simp
  from check_for_early_morning_photos_previous_day[OF vu nu, of 3]
  have "check_for_early_morning_photos ?u 3 = Inr ?u"
    by simp
  with run check_for_early_morning_photos_previous_day[OF vt nt, of 3] show ?thesis
    by simp
qed

text \<open>
  C6 as the specification states it fails on the first day of the calendar: there is no
  previous day, and the subtraction raises OverflowError.
\<close>

theorem check_for_early_morning_photos_overflows_on_first_day:
  "check_for_early_morning_photos
     \<lparr>year = 1, month = 1, day = 1, hour = 2, minute = 0, second = 0, microsecond = 0\<rparr> 3
   = Inl OverflowError"
  by code_simp

section \<open>Removing empty directories\<close>

lemma cleanup_frame_refl: "cleanup_frame tst src walked st st"
  by (simp add: cleanup_frame_def)

lemma cleanup_frameD:
  assumes "cleanup_frame tst src walked st st'"
  shows "files st' = files st" "test_file_dict st' = test_file_dict st"
    "tst \<Longrightarrow> st' = st" "set (dirs st') \<subseteq> set (dirs st)"
    "\<And>p. p \<in> set (dirs st) \<Longrightarrow> p \<notin> set (dirs st') \<Longrightarrow>
          p \<noteq> src \<and> (\<exists>dirnames. (p, dirnames, []) \<in> set walked)"
  using assms unfolding cleanup_frame_def by blast+

lemma cleanup_frameI:
  assumes "files st' = files st" "test_file_dict st' = test_file_dict st"
    "tst \<Longrightarrow> st' = st" "set (dirs st') \<subseteq> set (dirs st)"
    "\<And>p. p \<in> set (dirs st) \<Longrightarrow> p \<notin> set (dirs st') \<Longrightarrow>
          p \<noteq> src \<and> (\<exists>dirnames. (p, dirnames, []) \<in> set walked)"
  shows "cleanup_frame tst src walked st st'"
  unfolding cleanup_frame_def using assms by blast

lemma cleanup_frame_trans:
  assumes a: "cleanup_frame tst src w1 st st'" and b: "cleanup_frame tst src w2 st' st''"
    and s1: "set w1 \<subseteq> set w" and s2: "set w2 \<subseteq> set w"
  shows "cleanup_frame tst src w st st''"
proof (rule cleanup_frameI)
  show "files st'' = files st"
    using cleanup_frameD(1)[OF a] cleanup_frameD(1)[OF b] by simp
  show "test_file_dict st'' = test_file_dict st"
    using cleanup_frameD(2)[OF a] cleanup_frameD(2)[OF b] by simp
  show "st'' = st" if tst
    using cleanup_frameD(3)[OF a that] cleanup_frameD(3)[OF b that] by simp
  show "set (dirs st'') \<subseteq> set (dirs st)"
    using cleanup_frameD(4)[OF a] cleanup_frameD(4)[OF b] by (rule subset_trans[rotated])
  show "p \<noteq> src \<and> (\<exists>dirnames. (p, dirnames, []) \<in> set w)"
    if p: "p \<in> set (dirs st)" "p \<notin> set (dirs st'')" for p
  proof (cases "p \<in> set (dirs st')")
    case True
    from cleanup_frameD(5)[OF b True p(2)] s2 show ?thesis by blast
  next
    case False
    from cleanup_frameD(5)[OF a p(1) False] s1 show ?thesis by blast
  qed
qed

lemma cleanup_frame_mono:
  assumes a: "cleanup_frame tst src w1 st st'" and s: "set w1 \<subseteq> set w"
  shows "cleanup_frame tst src w st st'"
proof (rule cleanup_frameI)
  show "p \<noteq> src \<and> (\<exists>dirnames. (p, dirnames, []) \<in> set w)"
    if p: "p \<in> set (dirs st)" "p \<notin> set (dirs st')" for p
    using cleanup_frameD(5)[OF a p] s by blast
qed (use cleanup_frameD[OF a] in auto)

lemma os_rmdir_frame:
  assumes "os_rmdir st p e = Ok u st'" "p \<noteq> src"
  shows "cleanup_frame False src [(p, ds, [])] st st'"
proof -
  from assms(1) have st': "st' = st\<lparr>dirs := removeAll p (dirs st)\<rparr>"
    by (simp add: os_rmdir_def split: if_splits)
  show ?thesis
  proof (rule cleanup_frameI)
    show "p' \<noteq> src \<and> (\<exists>dirnames. (p', dirnames, []) \<in> set [(p, ds, [])])"
      if "p' \<in> set (dirs st)" "p' \<notin> set (dirs st')" for p'
    proof -
      from that have "p' = p" by (simp add: st')
      with assms(2) show ?thesis by simp
    qed
  qed (simp_all add: st')
qed

lemma os_rmdir_raised: "os_rmdir st p e = Raised x st' \<Longrightarrow> st' = st"
  by (auto simp: os_rmdir_def split: if_splits)

lemma cleanup_walk_frame:
  "cleanup_frame tst src (walk_topdown dirpath t) st (final (cleanup_dir tst src dirpath t st))"
  "cleanup_frame tst src (walk_subdirs dirpath subs) st (final (cleanup_subdirs tst src dirpath subs st))"
proof (induction tst src dirpath t st and tst src dirpath subs st
       rule: cleanup_dir_cleanup_subdirs.induct)
  case (1 tst src dirpath fnames subs st)
  let ?w = "walk_topdown dirpath (Dir fnames subs)"
  have sub: "set (walk_subdirs dirpath subs) \<subseteq> set ?w" by auto
  show ?case
  proof (cases "cleanup_subdirs tst src dirpath subs st")
    case (Raised e st')
    with "1.IH" sub show ?thesis
      by (auto intro: cleanup_frame_mono)
  next
    case (Ok all_gone st')
    with "1.IH" have f1: "cleanup_frame tst src (walk_subdirs dirpath subs) st st'"
      by simp
    show ?thesis
    proof (cases "fnames = [] \<and> dirpath \<noteq> src \<and> \<not> tst")
      case False
      then have "final (cleanup_dir tst src dirpath (Dir fnames subs) st) = st'"
        using Ok by auto
      with f1 sub show ?thesis
        by (auto intro: cleanup_frame_mono)
    next
      case True
      show ?thesis
      proof (cases "os_rmdir st' dirpath all_gone")
        case r: (Raised e st'')
        then have "final (cleanup_dir tst src dirpath (Dir fnames subs) st) = st'"
          using Ok True os_rmdir_raised[OF r] by simp
        with f1 sub show ?thesis
          by (auto intro: cleanup_frame_mono)
      next
        case k: (Ok u st'')
        have fin: "final (cleanup_dir tst src dirpath (Dir fnames subs) st) = st''"
          using Ok True k by simp
        have f2: "cleanup_frame tst src [(dirpath, map fst subs, [])] st' st''"
          using os_rmdir_frame[OF k, of src "map fst subs"] True by simp
        have "set [(dirpath, map fst subs, [])] \<subseteq> set ?w"
          using True by simp
        from cleanup_frame_trans[OF f1 f2 sub this] fin show ?thesis
          by simp
      qed
    qed
  qed
next
  case (2 tst src dirpath st)
  show ?case by (simp add: cleanup_frame_refl)
next
  case (3 tst src dirpath sub rest st)
  let ?w1 = "walk_topdown (os_path_join dirpath (fst sub)) (snd sub)"
  let ?w = "walk_subdirs dirpath (sub # rest)"
  have s1: "set ?w1 \<subseteq> set ?w" and s2: "set (walk_subdirs dirpath rest) \<subseteq> set ?w"
    by auto
  show ?case
  proof (cases "cleanup_dir tst src (os_path_join dirpath (fst sub)) (snd sub) st")
    case (Raised e st')
    with "3.IH"(1) s1 show ?thesis
      by (auto intro: cleanup_frame_mono)
  next
    case (Ok gone st')
    with "3.IH"(1) have f1: "cleanup_frame tst src ?w1 st st'" by simp
    from "3.IH"(2)[OF Ok]
    have f2: "cleanup_frame tst src (walk_subdirs dirpath rest) st'
                (final (cleanup_subdirs tst src dirpath rest st'))" .
    have "final (cleanup_subdirs tst src dirpath (sub # rest) st)
          = final (cleanup_subdirs tst src dirpath rest st')"
      using Ok by (cases "cleanup_subdirs tst src dirpath rest st'") simp_all
    with cleanup_frame_trans[OF f1 f2 s1 s2] show ?thesis
      by simp
  qed
qed

text \<open>
  C9. Whatever the source tree and the state, and whether the walk ends or is cut short by
  an error of \<open>os.rmdir\<close>: the clean-up removes no file, never removes the source
  directory itself, removes nothing in test mode, creates no directory, and every
  directory it removes is one the walk lists strictly below the source directory with no
  file names.
\<close>

theorem cleanup_never_removes_source_root:
  fixes st :: state and tst :: bool and src :: string and fnames :: "string list"
    and subs :: "(string \<times> dirtree) list"
  defines "st' \<equiv> final (cleanup_dir tst src src (Dir fnames subs) st)"
  shows "files st' = files st
         \<and> (os_path_isdir st src \<longrightarrow> os_path_isdir st' src)
         \<and> (tst \<longrightarrow> st' = st)
         \<and> (\<forall>p. os_path_isdir st' p \<longrightarrow> os_path_isdir st p)
         \<and> (\<forall>p. os_path_isdir st p \<and> \<not> os_path_isdir st' p \<longrightarrow>
                p \<noteq> src \<and> (\<exists>dirnames. (p, dirnames, []) \<in> set (walk_subdirs src subs)))"
proof -
  have fr: "cleanup_frame tst src (walk_topdown src (Dir fnames subs)) st st'"
    unfolding st'_def by (rule cleanup_walk_frame(1))
  have gone: "p \<noteq> src \<and> (\<exists>dirnames. (p, dirnames, []) \<in> set (walk_subdirs src subs))"
    if "os_path_isdir st p" "\<not> os_path_isdir st' p" for p
  proof -
    from that have "p \<in> set (dirs st)" "p \<notin> set (dirs st')"
      by (simp_all add: os_path_isdir_def)
    from cleanup_frameD(5)[OF fr this]
    obtain dirnames where ne: "p \<noteq> src"
      and mem: "(p, dirnames, []) \<in> set (walk_topdown src (Dir fnames subs))"
      by blast
    from mem ne have "(p, dirnames, []) \<in> set (walk_subdirs src subs)"
      by simp
    with ne show ?thesis by blast
  qed
  have c1: "files st' = files st"
    by (rule cleanup_frameD(1)[OF fr])
  have c2: "os_path_isdir st src \<longrightarrow> os_path_isdir st' src"
    using gone[of src] by blast
  have c3: "tst \<longrightarrow> st' = st"
    using cleanup_frameD(3)[OF fr] by blast
  have c4: "\<forall>p. os_path_isdir st' p \<longrightarrow> os_path_isdir st p"
    using cleanup_frameD(4)[OF fr] by (auto simp: os_path_isdir_def)
  have c5: "\<forall>p. os_path_isdir st p \<and> \<not> os_path_isdir st' p \<longrightarrow>
                p \<noteq> src \<and> (\<exists>dirnames. (p, dirnames, []) \<in> set (walk_subdirs src subs))"
    using gone by blast
  from c1 c2 c3 c4 c5 show ?thesis
    by (intro conjI)
qed

theorem cleanup_never_removes_source_root_witness:
  "final (cleanup_dir False ''src'' ''src'' empty_source_tree empty_source_state)
     = \<lparr>files = [], dirs = [''src'', ''dest''], test_file_dict = []\<rparr>
   \<and> final (cleanup_dir True ''src'' ''src'' empty_source_tree empty_source_state)
     = empty_source_state
   \<and> os_path_isdir
       (final (cleanup_dir False ''src'' ''src'' empty_source_tree empty_source_state)) ''src''"
proof -
  have r1: "final (cleanup_dir False ''src'' ''src'' empty_source_tree empty_source_state)
     = \<lparr>files = [], dirs = [''src'', ''dest''], test_file_dict = []\<rparr>"
    by code_simp
  have r2: "final (cleanup_dir True ''src'' ''src'' empty_source_tree empty_source_state)
     = empty_source_state"
    by code_simp
  have d: "os_path_isdir empty_source_state ''src''"
    by code_simp
  note kept = cleanup_never_removes_source_root[where tst = False and src = "''src''"
      and fnames = "[]" and subs = "[(''a'', Dir [] [])]" and st = empty_source_state,
      THEN conjunct2, THEN conjunct1, rule_format]
  have "os_path_isdir
       (final (cleanup_dir False ''src'' ''src'' empty_source_tree empty_source_state)) ''src''"
    unfolding empty_source_tree_def by (rule kept[OF d])
  with r1 r2 show ?thesis
    by (intro conjI)
qed

section \<open>The parser on malformed input\<close>

text \<open>
  C5. The parser is meant to answer None on every string that is not a timestamp. The
  date token \<open>2020::15\<close> has three colon-separated pieces, a four-character year above
  \<open>0000\<close> and no decimal point, so it passes the test of line 52 although its month is
  empty; \<open>int('')\<close> at line 54 then raises ValueError, outside the \<open>try\<close> blocks of lines
  94 to 103 that turn a ValueError of the \<open>datetime\<close> constructor into None.
\<close>

theorem parse_date_exif_raises_on_empty_month:
  "parse_date_exif strftime_py3 (Str ''2020::15'') = Inl ValueError"
  by code_simp


section \<open>The ignore lists of the selector\<close>

text \<open>
  C4, as the code has it. With \<open>use_only_tags\<close> set, the selector receives empty ignore
  lists: a key is excluded only by the built-in rules. With \<open>use_only_groups\<close> set and
  \<open>use_only_tags\<close> not, only the ignored groups are emptied: the ignored tags still
  exclude their keys.
\<close>

theorem setup_tags_ignore_lists:
  assumes "setup_tags a = (args, groups, tags)"
  shows "(use_only_tags a \<noteq> None \<longrightarrow>
            groups = [] \<and> tags = []
            \<and> key_considered (''ICC_Profile'' # groups)
                 (''SourceFile'' # ''XMP:HistoryWhen'' # tags) key
              = key_considered [''ICC_Profile''] [''SourceFile'', ''XMP:HistoryWhen''] key)
         \<and> (use_only_tags a = None \<and> use_only_groups a \<noteq> None \<longrightarrow>
            groups = [] \<and> tags = additional_tags_to_ignore a
            \<and> key_considered (''ICC_Profile'' # groups)
                 (''SourceFile'' # ''XMP:HistoryWhen'' # tags) key
              = (key_considered [''ICC_Profile''] [''SourceFile'', ''XMP:HistoryWhen''] key
                 \<and> key \<notin> set (additional_tags_to_ignore a)))"
  using assms
  by (auto simp: setup_tags_def key_considered_def split: option.splits)

theorem setup_tags_ignore_lists_witness:
  "setup_tags only_exif_arguments = ([''-j'', ''-a'', ''-G'', ''-EXIF:Time:All''], [], [''EXIF:CreateDate''])
   \<and> key_considered [''ICC_Profile''] [''SourceFile'', ''XMP:HistoryWhen'', ''EXIF:CreateDate'']
        ''EXIF:ModifyDate''
   \<and> \<not> key_considered [''ICC_Profile''] [''SourceFile'', ''XMP:HistoryWhen'', ''EXIF:CreateDate'']
        ''EXIF:CreateDate''"
proof -
  have s: "setup_tags only_exif_arguments
             = ([''-j'', ''-a'', ''-G'', ''-EXIF:Time:All''], [], [''EXIF:CreateDate''])"
    by code_simp
  have u: "use_only_tags only_exif_arguments = None \<and> use_only_groups only_exif_arguments \<noteq> None"
    by (simp add: only_exif_arguments_def default_arguments_def)
  have t: "additional_tags_to_ignore only_exif_arguments = [''EXIF:CreateDate'']"
    by (simp add: only_exif_arguments_def default_arguments_def)
  have b1: "key_considered [''ICC_Profile''] [''SourceFile'', ''XMP:HistoryWhen''] ''EXIF:ModifyDate''"
    by code_simp
  note r = setup_tags_ignore_lists[OF s, THEN conjunct2, rule_format, OF u]
  from r[of "''EXIF:ModifyDate''"] b1 t
  have "key_considered [''ICC_Profile''] [''SourceFile'', ''XMP:HistoryWhen'', ''EXIF:CreateDate'']
        ''EXIF:ModifyDate''"
    by simp
  moreover from r[of "''EXIF:CreateDate''"] t
  have "\<not> key_considered [''ICC_Profile''] [''SourceFile'', ''XMP:HistoryWhen'', ''EXIF:CreateDate'']
        ''EXIF:CreateDate''"
    by simp
  ultimately show ?thesis
    using s by (intro conjI)
qed

text \<open>
  C4 as the specification states it fails with \<open>use_only_groups\<close>: the ignored tag is the
  file's only date, and the selector finds no date, where empty ignore lists find it.
\<close>

theorem use_only_groups_keeps_ignored_tags:
  "(case setup_tags only_exif_arguments of
      (args, groups, tags) \<Rightarrow> get_oldest_timestamp strftime_py3 noon_2026 thumbs_record groups tags)
     = Inr (One (Str ''src/Thumbs.db''), None, [])
   \<and> get_oldest_timestamp strftime_py3 noon_2026 thumbs_record [] []
     = Inr (One (Str ''src/Thumbs.db''),
            Some \<lparr>year = 2020, month = 1, day = 15, hour = 10, minute = 30, second = 0,
                  microsecond = 0\<rparr>,
            [''EXIF:CreateDate''])"
  by code_simp


section \<open>The batch orchestrator\<close>

subsection \<open>Files that match an ignore filter\<close>

text \<open>
  C2. A file whose name matches an ignore filter is meant to be left alone, or deleted
  when \<open>remove_ignored_files\<close> is set, and the loop is meant to go on with the next record.
  The \<open>continue\<close> of line 368 stands in the loop over the filters, so the per-file loop
  goes on to the placement: with \<open>--ignore '*.db'\<close> the file \<open>src/Thumbs.db\<close> is moved to
  the destination, and with \<open>--remove-ignored-files\<close> as well it is deleted and the move of
  the deleted file then raises.
\<close>

theorem ignored_file_is_still_placed:
  "sortPhotos thumbs_platform fixed_clock ignore_db_arguments thumbs_state =
     Ok 1 \<lparr>files = [(''dest/2020/01-Jan/Thumbs.db'', \<lparr>content = ''abc'', mtime = 5\<rparr>)],
           dirs = [''src'', ''dest'', ''dest/2020'', ''dest/2020/01-Jan''],
           test_file_dict = []\<rparr>
   \<and> sortPhotos thumbs_platform fixed_clock remove_db_arguments thumbs_state =
     Raised OSError \<lparr>files = [],
           dirs = [''src'', ''dest'', ''dest/2020'', ''dest/2020/01-Jan''],
           test_file_dict = []\<rparr>"
  by code_simp

subsection \<open>The \<open>ignore_list\<close> argument\<close>

text \<open>
  C10, as the code has it. When the source directory exists, a list passed as
  \<open>ignore_list\<close> makes \<open>sortPhotos\<close> raise AttributeError at line 301, with the state as it
  was and whatever the platform returns; None passes line 301 unchanged and a string is
  split at its commas.
\<close>

theorem sortPhotos_list_ignore_list:
  "(os_path_exists st (src_dir a) \<and> ignore_list a = IgnList xs \<longrightarrow>
      sortPhotos pl clock a st = Raised AttributeError st)
   \<and> split_ignore_list IgnNone = Inr None
   \<and> split_ignore_list (IgnStr s) = Inr (Some (py_split_on CHR '','' s))"
  by (auto simp: sortPhotos_def split_ignore_list_def split: prod.splits)

theorem sortPhotos_list_ignore_list_witness:
  "sortPhotos thumbs_platform fixed_clock (list_ignore_arguments ''src'') thumbs_state
     = Raised AttributeError thumbs_state"
proof -
  have e: "os_path_exists thumbs_state (src_dir (list_ignore_arguments ''src''))"
    by code_simp
  have l: "ignore_list (list_ignore_arguments ''src'') = IgnList []"
    by (simp add: list_ignore_arguments_def default_arguments_def)
  from sortPhotos_list_ignore_list[THEN conjunct1, rule_format, OF conjI[OF e l]]
  show ?thesis .
qed

text \<open>
  C10 as the specification states it fails when the source directory is missing: the
  check of line 273 raises first, and the error is not an AttributeError.
\<close>

theorem sortPhotos_list_ignore_list_missing_source:
  "sortPhotos thumbs_platform fixed_clock (list_ignore_arguments ''nowhere'') thumbs_state
     = Raised SourceDirMissing thumbs_state"
  by code_simp

section \<open>Collision resolution\<close>

text \<open>
  \<open>os.path.splitext\<close> cuts a path in two, and no candidate is the path itself.
\<close>

lemma ext_is_suffix:
  assumes "c \<in> set xs"
  shows "take (length xs - length (c # rev (takeWhile (\<lambda>x. x \<noteq> c) (rev xs)))) xs
         @ c # rev (takeWhile (\<lambda>x. x \<noteq> c) (rev xs)) = xs"
proof -
  let ?P = "\<lambda>x. x \<noteq> c"
  let ?t = "takeWhile ?P (rev xs)"
  let ?d = "dropWhile ?P (rev xs)"
  have "?d \<noteq> []" using assms by (simp add: dropWhile_eq_Nil_conv)
  moreover have "hd ?d = c" using hd_dropWhile[of ?P "rev xs"] \<open>?d \<noteq> []\<close> by auto
  ultimately obtain r where d: "?d = c # r" by (cases ?d) auto
  have "rev xs = ?t @ c # r" using takeWhile_dropWhile_id[of ?P "rev xs"] d by simp
  then have "rev (rev xs) = rev (?t @ c # r)" by simp
  then have xs: "xs = rev r @ c # rev ?t" by simp
  have "length xs - length (c # rev ?t) = length (rev r)"
    by (subst xs) simp
  then have "take (length xs - length (c # rev ?t)) xs = rev r"
    by (subst (2) xs) simp
  with xs show ?thesis by simp
qed

lemma basename_is_suffix: "\<exists>pre. p = pre @ os_path_basename p"
proof -
  let ?P = "\<lambda>c. c \<noteq> CHR ''/''"
  have "rev (takeWhile ?P (rev p) @ dropWhile ?P (rev p)) = rev (rev p)"
    by (simp only: takeWhile_dropWhile_id)
  then have "rev (dropWhile ?P (rev p)) @ rev (takeWhile ?P (rev p)) = p"
    by (simp only: rev_append rev_rev_ident)
  then have "p = rev (dropWhile ?P (rev p)) @ os_path_basename p"
    by (simp only: os_path_basename_def)
  then show ?thesis ..
qed

lemma os_path_splitext_append:
  assumes "os_path_splitext p = (root, ext)"
  shows "root @ ext = p"
proof -
  define base where "base = os_path_basename p"
  define e where "e = CHR ''.'' # rev (takeWhile (\<lambda>c. c \<noteq> CHR ''.'') (rev base))"
  define C where "C = (CHR ''.'' \<in> set base
                        \<and> list_ex (\<lambda>c. c \<noteq> CHR ''.'') (take (length base - length e) base))"
  obtain pre where p: "p = pre @ base"
    using basename_is_suffix[of p] base_def by blast
  have eq: "(if C then (take (length p - length e) p, e) else (p, [])) = (root, ext)"
    using assms unfolding os_path_splitext_def Let_def C_def e_def base_def .
  show ?thesis
  proof (cases C)
    case False
    with eq show ?thesis
      by simp
  next
    case True
    with eq have r: "root = take (length p - length e) p" and x: "ext = e"
      by auto
    from True have "CHR ''.'' \<in> set base"
      by (simp add: C_def)
    then have b: "take (length base - length e) base @ e = base"
      unfolding e_def by (rule ext_is_suffix)
    have "length (take (length base - length e) base @ e) = length base"
      by (simp only: b)
    then have le: "length e \<le> length base"
      by simp
    have "take (length p - length e) p = pre @ take (length base - length e) base"
      using le by (simp add: p)
    with b show ?thesis
      by (simp add: r x p)
  qed
qed

lemma candidate_neq_dest: "candidate root ext k \<noteq> root @ ext"
proof
  assume "candidate root ext k = root @ ext"
  then have "length (candidate root ext k) = length (root @ ext)" by simp
  then show False by (simp add: candidate_def)
qed

text \<open>
  One turn of the loop: a blocked name sends the loop to the next candidate, and a name
  that settles ends it.
\<close>

lemma collision_loop_blocked:
  assumes "name_blocked tst rmdup st src_file p"
  shows "collision_loop tst rmdup st src_file root ext p n
         = collision_loop tst rmdup st src_file root ext (candidate root ext n) (n + 1)"
  using assms
  by (subst collision_loop.simps) (auto simp: name_blocked_def split: option.splits if_splits)

lemma collision_loop_settles:
  assumes "name_settles tst rmdup st src_file p"
  shows "collision_loop tst rmdup st src_file root ext p n
         = Inr (p, dest_compare_of tst st p \<noteq> None)"
  using assms
  by (subst collision_loop.simps) (auto simp: name_settles_def split: option.splits)

lemma collision_loop_skips:
  assumes "name_blocked tst rmdup st src_file p" "n \<le> k"
    and "\<forall>i. n \<le> i \<and> i < k \<longrightarrow> name_blocked tst rmdup st src_file (candidate root ext i)"
  shows "collision_loop tst rmdup st src_file root ext p n
         = collision_loop tst rmdup st src_file root ext (candidate root ext k) (k + 1)"
  using assms
proof (induction "k - n" arbitrary: n p)
  case 0
  then have "n = k" by simp
  with collision_loop_blocked[OF "0.prems"(1), of root ext n] show ?case
    by (simp only:)
next
  case (Suc d)
  then have nk: "n < k" by simp
  have step: "collision_loop tst rmdup st src_file root ext p n
        = collision_loop tst rmdup st src_file root ext (candidate root ext n) (Suc n)"
    using collision_loop_blocked[OF Suc.prems(1), of root ext n] by (simp only: Suc_eq_plus1)
  have b: "name_blocked tst rmdup st src_file (candidate root ext n)"
    using Suc.prems(3) nk by simp
  have "collision_loop tst rmdup st src_file root ext (candidate root ext n) (Suc n)
        = collision_loop tst rmdup st src_file root ext (candidate root ext k) (k + 1)"
  proof (rule Suc.hyps(1))
    show "d = k - Suc n" using Suc.hyps(2) by simp
    show "name_blocked tst rmdup st src_file (candidate root ext n)" by (rule b)
    show "Suc n \<le> k" using nk by simp
    show "\<forall>i. Suc n \<le> i \<and> i < k \<longrightarrow> name_blocked tst rmdup st src_file (candidate root ext i)"
      using Suc.prems(3) by simp
  qed
  with step show ?case by (simp only:)
qed

text \<open>
  The loop returns the first name, in the order \<open>dest_file\<close>, \<open>root_1ext\<close>,
  \<open>root_2ext\<close>, ..., that is free or held by a file which \<open>filecmp.cmp\<close> takes for the
  source while duplicates are removed; the names before it being held by files that
  \<open>filecmp.cmp\<close> tells from the source, or duplicates being kept.
\<close>

lemma collision_loop_first_settling_name:
  assumes split: "os_path_splitext dest_file = (root, ext)"
    and blocked: "\<forall>i. i < k \<longrightarrow>
                    name_blocked tst rmdup st src_file (tried_name dest_file root ext i)"
    and settles: "name_settles tst rmdup st src_file (tried_name dest_file root ext k)"
  shows "collision_loop tst rmdup st src_file root ext dest_file 1
           = Inr (tried_name dest_file root ext k,
                  dest_compare_of tst st (tried_name dest_file root ext k) \<noteq> None)
         \<and> (0 < k \<longrightarrow> tried_name dest_file root ext k \<noteq> dest_file)
         \<and> tried_name dest_file root ext 1 = root @ ''_1'' @ ext"
proof -
  have one: "tried_name dest_file root ext 1 = root @ ''_1'' @ ext"
    by (simp add: tried_name_def candidate_def digit_char_def)
  have ne: "0 < k \<longrightarrow> tried_name dest_file root ext k \<noteq> dest_file"
    using os_path_splitext_append[OF split] candidate_neq_dest[of root ext k]
    by (auto simp: tried_name_def)
  have run: "collision_loop tst rmdup st src_file root ext dest_file 1
           = Inr (tried_name dest_file root ext k,
                  dest_compare_of tst st (tried_name dest_file root ext k) \<noteq> None)"
  proof (cases "k = 0")
    case True
    with settles have "name_settles tst rmdup st src_file dest_file"
      by (simp add: tried_name_def)
    from collision_loop_settles[OF this, of root ext 1] True show ?thesis
      by (simp add: tried_name_def)
  next
    case False
    have b0: "name_blocked tst rmdup st src_file dest_file"
      using blocked[rule_format, of 0] False by (simp add: tried_name_def)
    have bi: "\<forall>i. 1 \<le> i \<and> i < k \<longrightarrow> name_blocked tst rmdup st src_file (candidate root ext i)"
      using blocked by (auto simp: tried_name_def)
    have "collision_loop tst rmdup st src_file root ext dest_file 1
          = collision_loop tst rmdup st src_file root ext (candidate root ext k) (k + 1)"
      using False by (intro collision_loop_skips[OF b0 _ bi]) simp
    also have "\<dots> = Inr (candidate root ext k, dest_compare_of tst st (candidate root ext k) \<noteq> None)"
      using settles False by (intro collision_loop_settles) (simp add: tried_name_def)
    finally show ?thesis
      using False by (simp add: tried_name_def)
  qed
  from run ne one show ?thesis
    by (intro conjI)
qed



text \<open>
  Two files of the same name and date and of different sizes: the second is placed
  under the name with the suffix \<open>_1\<close>.
\<close>

lemma collision_loop_first_settling_name_example:
  "process_record (posix_platform two_files_records (Dir [] [])) (default_arguments ''src'' ''dest'')
     [] [] None noon_2026 (hd two_files_records) two_files_state = Ok () first_placed_state
   \<and> os_path_splitext ''dest/2020/01-Jan/a.jpg'' = (''dest/2020/01-Jan/a'', ''.jpg'')
   \<and> name_blocked False True first_placed_state ''src/y/a.jpg'' ''dest/2020/01-Jan/a.jpg''
   \<and> collision_loop False True first_placed_state ''src/y/a.jpg''
         ''dest/2020/01-Jan/a'' ''.jpg'' ''dest/2020/01-Jan/a.jpg'' 1
       = Inr (''dest/2020/01-Jan/a_1.jpg'', False)"
proof -
  have p: "process_record (posix_platform two_files_records (Dir [] [])) (default_arguments ''src'' ''dest'')
     [] [] None noon_2026 (hd two_files_records) two_files_state = Ok () first_placed_state"
    by code_simp
  have s: "os_path_splitext ''dest/2020/01-Jan/a.jpg'' = (''dest/2020/01-Jan/a'', ''.jpg'')"
    by code_simp
  have b0: "name_blocked False True first_placed_state ''src/y/a.jpg'' ''dest/2020/01-Jan/a.jpg''"
    by code_simp
  have b: "\<forall>i. i < 1 \<longrightarrow> name_blocked False True first_placed_state ''src/y/a.jpg''
             (tried_name ''dest/2020/01-Jan/a.jpg'' ''dest/2020/01-Jan/a'' ''.jpg'' i)"
    using b0 by (simp add: tried_name_def)
  have e1: "tried_name ''dest/2020/01-Jan/a.jpg'' ''dest/2020/01-Jan/a'' ''.jpg'' 1
            = ''dest/2020/01-Jan/a_1.jpg''"
    by code_simp
  have e2: "dest_compare_of False first_placed_state ''dest/2020/01-Jan/a_1.jpg'' = None"
    by code_simp
  have st: "name_settles False True first_placed_state ''src/y/a.jpg''
             (tried_name ''dest/2020/01-Jan/a.jpg'' ''dest/2020/01-Jan/a'' ''.jpg'' 1)"
    unfolding e1 by code_simp
  note r = collision_loop_first_settling_name[OF s b st, THEN conjunct1]
  have c: "collision_loop False True first_placed_state ''src/y/a.jpg''
         ''dest/2020/01-Jan/a'' ''.jpg'' ''dest/2020/01-Jan/a.jpg'' 1
       = Inr (''dest/2020/01-Jan/a_1.jpg'', False)"
    using r unfolding e1 e2 by simp
  from p s b0 c show ?thesis
    by (intro conjI)
qed

text \<open>
  Claim C7: two distinct source files that map to the same destination path receive two
  different final paths, the second with the suffix \<open>_1\<close>. The comparison of line 428 is
  \<open>filecmp.cmp\<close> with its default \<open>shallow=True\<close>, which takes two regular files of the
  same size and modification time for identical without reading them, where the
  documentation of \<open>remove_duplicates\<close> (line 250) speaks of files with the same hash.
  The call is that of the command line \<open>sortphotos.py -r src dest\<close>, which passes None
  for \<open>ignore_list\<close>. Two files \<open>a.jpg\<close> of the same date, size and modification time
  and of different content, in two source directories: the loop takes the second for a
  duplicate of the first, \<open>shutil.move\<close> puts it over the first, and one file is left of the two, under
  one path.
\<close>

theorem distinct_files_of_equal_size_and_mtime_share_a_path:
  "sortPhotos (posix_platform two_files_records (Dir [] [])) fixed_clock
     ((default_arguments ''src'' ''dest'')\<lparr>recursive := True\<rparr>) same_stat_state
   = Ok 2 \<lparr>files = [(''dest/2020/01-Jan/a.jpg'', \<lparr>content = ''other'', mtime = 5\<rparr>)],
            dirs = [''src'', ''src/x'', ''src/y'', ''dest'', ''dest/2020'', ''dest/2020/01-Jan''],
            test_file_dict = []\<rparr>"
  by code_simp

section \<open>The parser on well-formed input\<close>

text \<open>
  A digit is no separator of the parser, and the splits cut a text of separator-free
  pieces at its separators.
\<close>

lemma is_digit_code: "is_digit c \<Longrightarrow> 48 \<le> (of_char c :: nat) \<and> (of_char c :: nat) \<le> 57"
  by (simp add: is_digit_def less_eq_char_def)

lemma is_digit_not_colon: "is_digit c \<Longrightarrow> c \<noteq> CHR '':''"
  by (auto dest: is_digit_code)

lemma is_digit_not_dot: "is_digit c \<Longrightarrow> c \<noteq> CHR ''.''"
  by (auto dest: is_digit_code)

lemma is_digit_not_space: "is_digit c \<Longrightarrow> \<not> py_isspace c"
  by (auto simp: py_isspace_def dest: is_digit_code)

lemma is_digit_not_tz_sep: "is_digit c \<Longrightarrow> \<not> is_tz_sep c"
  by (auto simp: is_tz_sep_def dest: is_digit_code)

lemma all_digits_no_colon: "all_digits s \<Longrightarrow> CHR '':'' \<notin> set s"
  by (auto simp: all_digits_def list_all_iff dest: is_digit_not_colon)

lemma all_digits_no_dot: "all_digits s \<Longrightarrow> CHR ''.'' \<notin> set s"
  by (auto simp: all_digits_def list_all_iff dest: is_digit_not_dot)

lemma all_digits_no_space: "all_digits s \<Longrightarrow> no_space s"
  by (auto simp: all_digits_def no_space_def list_all_iff dest: is_digit_not_space)

lemma all_digits_no_tz_sep: "all_digits s \<Longrightarrow> no_tz_sep s"
  by (auto simp: all_digits_def no_tz_sep_def list_all_iff dest: is_digit_not_tz_sep)

lemma no_space_append: "no_space (a @ b) = (no_space a \<and> no_space b)"
  by (simp add: no_space_def)

lemma no_space_Cons: "no_space (c # s) = (\<not> py_isspace c \<and> no_space s)"
  by (simp add: no_space_def)

lemma no_space_Nil: "no_space []"
  by (simp add: no_space_def)

lemma py_strip_no_space:
  assumes "no_space s"
  shows "py_strip s = s"
proof -
  have a: "dropWhile py_isspace t = t" if "no_space t" for t
    using that by (cases t) (simp_all add: no_space_def)
  have "no_space (rev s)"
    using assms by (simp add: no_space_def)
  then show ?thesis
    by (simp add: py_strip_def a assms)
qed

lemma split_ws_from_no_space:
  "no_space s \<Longrightarrow> cur @ s \<noteq> [] \<Longrightarrow> split_ws_from cur s = [cur @ s]"
  by (induction s arbitrary: cur) (simp_all add: no_space_def)

lemma split_ws_from_two:
  "no_space a \<Longrightarrow> no_space b \<Longrightarrow> cur @ a \<noteq> [] \<Longrightarrow> b \<noteq> [] \<Longrightarrow>
   split_ws_from cur (a @ CHR '' '' # b) = [cur @ a, b]"
proof (induction a arbitrary: cur)
  case Nil
  have "py_isspace CHR '' ''"
    by (simp add: py_isspace_def)
  with Nil show ?case
    by (simp add: split_ws_from_no_space)
next
  case (Cons c a)
  then show ?case
    by (simp add: no_space_def)
qed

lemma split_on_from_none: "sep \<notin> set a \<Longrightarrow> split_on_from sep cur a = [cur @ a]"
  by (induction a arbitrary: cur) auto

lemma split_on_from_first:
  "sep \<notin> set a \<Longrightarrow> split_on_from sep cur (a @ sep # rest) = (cur @ a) # split_on_from sep [] rest"
  by (induction a arbitrary: cur) auto

lemma re_split_from_none: "no_tz_sep a \<Longrightarrow> re_split_from cur a = [cur @ a]"
  by (induction a arbitrary: cur) (simp_all add: no_tz_sep_def)

lemma re_split_from_first:
  "no_tz_sep a \<Longrightarrow> is_tz_sep c \<Longrightarrow>
   re_split_from cur (a @ c # rest) = (cur @ a) # [c] # re_split_from [] rest"
  by (induction a arbitrary: cur) (simp_all add: no_tz_sep_def)

lemma py_split_on_three:
  assumes "sep \<notin> set a" "sep \<notin> set b" "sep \<notin> set c"
  shows "py_split_on sep (a @ sep # b @ sep # c) = [a, b, c]"
  using assms by (simp add: py_split_on_def split_on_from_first split_on_from_none)

lemma py_split_on_two:
  assumes "sep \<notin> set a" "sep \<notin> set b"
  shows "py_split_on sep (a @ sep # b) = [a, b]"
  using assms by (simp add: py_split_on_def split_on_from_first split_on_from_none)

text \<open>
  The comparison \<open>date_entries[0] > '0000'\<close> of line 52 is a comparison of strings.
\<close>

lemma year_after_0000:
  assumes "all_digits ys" "length ys = 4" "py_int ys = Inr y" "1 \<le> y"
  shows "ys > ''0000''"
proof -
  from assms(2) obtain a b c d where ys: "ys = [a, b, c, d]"
    by (auto simp: length_Suc_conv numeral_eq_Suc)
  have z: "CHR ''0'' \<le> a" "CHR ''0'' \<le> b" "CHR ''0'' \<le> c" "CHR ''0'' \<le> d"
    using assms(1) by (simp_all add: ys all_digits_def is_digit_def)
  have "py_int ''0000'' = Inr 0"
    by code_simp
  with assms(3,4) have ne: "ys \<noteq> ''0000''"
    by auto
  show ?thesis
    using z ne unfolding ys
    by (auto simp: less_le)
qed

text \<open>
  Claim C8: a date token with no time token gives noon of that date. The token is
  \<open>YYYY:MM:DD\<close>, three runs of digits with a year of four digits, that read as a date of
  the calendar which \<open>strftime\<close> accepts on the platform (line 101).
\<close>

theorem parse_date_exif_date_only_is_noon:
  assumes digits: "all_digits ys" "all_digits ms" "all_digits ds"
    and four: "length ys = 4"
    and ints: "py_int ys = Inr y" "py_int ms = Inr m" "py_int ds = Inr d"
    and valid: "1 \<le> y" "y \<le> 9999" "1 \<le> m" "m \<le> 12" "1 \<le> d" "d \<le> days_in_month y m"
    and fmt: "fmt_ok \<lparr>year = y, month = m, day = d, hour = 12, minute = 0, second = 0,
                       microsecond = 0\<rparr>"
  shows "parse_date_exif fmt_ok (Str (ys @ '':'' @ ms @ '':'' @ ds))
         = Inr (Some \<lparr>year = y, month = m, day = d, hour = 12, minute = 0, second = 0,
                       microsecond = 0\<rparr>)"
proof -
  let ?tok = "ys @ CHR '':'' # ms @ CHR '':'' # ds"
  have colon: "\<not> py_isspace CHR '':''"
    by (simp add: py_isspace_def)
  have ns: "no_space ?tok"
    using digits colon by (simp add: no_space_append no_space_Cons all_digits_no_space)
  have ne: "?tok \<noteq> []"
    by simp
  have strip: "py_strip ?tok = ?tok"
    by (rule py_strip_no_space[OF ns])
  have "split_ws_from [] ?tok = [[] @ ?tok]"
    by (rule split_ws_from_no_space[OF ns]) simp
  then have split: "split_ws_from [] ?tok = [?tok]"
    by (simp only: append_Nil)
  have elements: "py_split (py_strip (py_str (Str ?tok))) = [?tok]"
    by (simp only: py_str.simps strip py_split_def split)
  have entries: "py_split_on CHR '':'' ?tok = [ys, ms, ds]"
    using py_split_on_three[of "CHR '':''" ys ms ds] digits
    by (simp add: all_digits_no_colon)
  have shape: "date_shape_ok [ys, ms, ds]"
    using digits four year_after_0000[OF digits(1) four ints(1) valid(1)]
    by (simp add: date_shape_ok_def all_digits_no_dot)
  have time: "parse_time [?tok] = Inr ((12, 0, 0), None)"
    by (simp add: parse_time_def)
  have mk: "mk_datetime y m d 12 0 0
            = Inr \<lparr>year = y, month = m, day = d, hour = 12, minute = 0, second = 0,
                   microsecond = 0\<rparr>"
  proof -
    have "d \<le> 31"
      using valid(6) by (simp add: days_in_month_def split: if_splits)
    then show ?thesis
      using valid by (simp add: mk_datetime_def in_c_int_def)
  qed
  have "parse_date_exif fmt_ok (Str ?tok)
        = Inr (Some \<lparr>year = y, month = m, day = d, hour = 12, minute = 0, second = 0,
                      microsecond = 0\<rparr>)"
    unfolding parse_date_exif_def elements Let_def
    by (simp add: entries shape ints time mk err_bind_def fmt)
  then show ?thesis
    by simp
qed

theorem parse_date_exif_date_only_is_noon_witness:
  "parse_date_exif strftime_py3 (Str ''2020:01:15'')
   = Inr (Some \<lparr>year = 2020, month = 1, day = 15, hour = 12, minute = 0, second = 0,
                 microsecond = 0\<rparr>)"
proof -
  have a: "all_digits ''2020''" "all_digits ''01''" "all_digits ''15''"
    by code_simp+
  have i: "py_int ''2020'' = Inr 2020" "py_int ''01'' = Inr 1" "py_int ''15'' = Inr 15"
    by code_simp+
  have d: "(15::int) \<le> days_in_month 2020 1"
    by code_simp
  have f: "strftime_py3 \<lparr>year = 2020, month = 1, day = 15, hour = 12, minute = 0, second = 0,
                       microsecond = 0\<rparr>"
    by (simp add: strftime_py3_def)
  from parse_date_exif_date_only_is_noon[where fmt_ok = strftime_py3 and ys = "''2020''"
         and ms = "''01''" and ds = "''15''" and y = 2020 and m = 1 and d = 15]
  show ?thesis
    using a i d f by simp
qed

section \<open>The time-zone suffix\<close>

text \<open>
  A text of two tokens splits into the two.
\<close>

lemma py_strip_ends:
  assumes "s \<noteq> []" "\<not> py_isspace (hd s)" "\<not> py_isspace (last s)"
  shows "py_strip s = s"
proof -
  have a: "dropWhile py_isspace t = t" if "t \<noteq> []" "\<not> py_isspace (hd t)" for t
    using that by (cases t) simp_all
  have "dropWhile py_isspace (rev s) = rev s"
    using assms by (intro a) (simp_all add: hd_rev)
  then show ?thesis
    using assms by (simp add: py_strip_def a)
qed

lemma no_space_hd: "no_space s \<Longrightarrow> s \<noteq> [] \<Longrightarrow> \<not> py_isspace (hd s)"
  by (cases s) (simp_all add: no_space_def)

lemma no_space_last: "no_space s \<Longrightarrow> s \<noteq> [] \<Longrightarrow> \<not> py_isspace (last s)"
  by (simp add: no_space_def list_all_iff)

lemma py_split_two_tokens:
  assumes "no_space a" "a \<noteq> []" "no_space b" "b \<noteq> []"
  shows "py_split (py_strip (a @ CHR '' '' # b)) = [a, b]"
proof -
  have "py_strip (a @ CHR '' '' # b) = a @ CHR '' '' # b"
    using assms no_space_hd[OF assms(1,2)] no_space_last[OF assms(3,4)]
    by (intro py_strip_ends) simp_all
  moreover have "split_ws_from [] (a @ CHR '' '' # b) = [[] @ a, b]"
    using assms by (intro split_ws_from_two) simp_all
  ultimately show ?thesis
    by (simp add: py_split_def)
qed

text \<open>
  Two digits read as a number below 100, and a \<open>timedelta\<close> of that many hours and
  minutes is in range.
\<close>

lemma two_digits_value:
  assumes "all_digits s" "length s = 2" "py_int s = Inr v"
  shows "0 \<le> v \<and> v \<le> 99"
proof -
  from assms(2) obtain a b where s: "s = [a, b]"
    by (auto simp: length_Suc_conv numeral_eq_Suc)
  from assms(1) have da: "is_digit a" and db: "is_digit b"
    by (simp_all add: s all_digits_def)
  have ns: "no_space s"
    using assms(1) by (rule all_digits_no_space)
  have strip: "py_strip [a, b] = [a, b]"
    using py_strip_no_space[OF ns] by (simp only: s)
  have na: "a \<noteq> CHR ''-''" "a \<noteq> CHR ''+''" "a \<noteq> CHR ''_''"
    using da by (auto dest: is_digit_code)
  have nb: "b \<noteq> CHR ''_''"
    using db by (auto dest: is_digit_code)
  have va: "0 \<le> digit_val a \<and> digit_val a \<le> 9"
    using is_digit_code[OF da] by (simp add: digit_val_def)
  have vb: "0 \<le> digit_val b \<and> digit_val b \<le> 9"
    using is_digit_code[OF db] by (simp add: digit_val_def)
  have "py_int [a, b] = Inr (digit_val a * 10 + digit_val b)"
    using da db na nb by (simp add: py_int_def strip Let_def)
  with assms(3) have "v = digit_val a * 10 + digit_val b"
    by (simp add: s)
  with va vb show ?thesis
    by simp
qed

lemma py_timedelta_small:
  assumes "- 86400000 \<le> h * 3600 + m * 60" "h * 3600 + m * 60 \<le> 86400000"
  shows "py_timedelta h m = Inr (h * 3600 + m * 60)"
proof -
  have "(h * 3600 + m * 60) div 86400 \<le> 86400000 div 86400"
    using assms(2) by (intro zdiv_mono1) simp_all
  moreover have "(- 86400000) div 86400 \<le> (h * 3600 + m * 60) div 86400"
    using assms(1) by (intro zdiv_mono1) simp_all
  ultimately show ?thesis
    by (simp add: py_timedelta_def Let_def)
qed

text \<open>
  The time piece with and without an offset: the clock reading is the same, and the
  offset is \<open>dateadd\<close>.
\<close>

lemma parse_tz_none: "parse_tz [tm] = Inr None"
  by (simp add: parse_tz_def)

lemma parse_tz_offset:
  assumes digits: "all_digits hh" "all_digits mm" "length hh = 2" "length mm = 2"
    and ints: "py_int hh = Inr h" "py_int mm = Inr m"
  shows "parse_tz [tm, [sep], hh @ CHR '':'' # mm]
         = Inr (Some ((if sep = CHR ''-'' then - h else h) * 3600 + m * 60))"
proof -
  have zone: "py_split_on CHR '':'' (hh @ CHR '':'' # mm) = [hh, mm]"
    using digits by (intro py_split_on_two all_digits_no_colon)
  have bh: "0 \<le> h \<and> h \<le> 99"
    using digits(1,3) ints(1) by (rule two_digits_value)
  have bm: "0 \<le> m \<and> m \<le> 99"
    using digits(2,4) ints(2) by (rule two_digits_value)
  have delta: "py_timedelta (if sep = CHR ''-'' then h * (- 1) else h) m
               = Inr ((if sep = CHR ''-'' then - h else h) * 3600 + m * 60)"
  proof (cases "sep = CHR ''-''")
    case True
    have "py_timedelta (- h) m = Inr (- h * 3600 + m * 60)"
      using bh bm by (intro py_timedelta_small) simp_all
    with True show ?thesis by simp
  next
    case False
    have "py_timedelta h m = Inr (h * 3600 + m * 60)"
      using bh bm by (intro py_timedelta_small) simp_all
    with False show ?thesis by simp
  qed
  show ?thesis
    unfolding parse_tz_def
    by (simp add: zone ints err_bind_def delta Let_def del: mult_minus1_right)
qed

lemma parse_time_no_suffix:
  assumes "no_tz_sep tm"
  shows "parse_time [dt, tm]
         = err_bind (parse_hms (py_split_on CHR '':'' tm)) (\<lambda>hms. Inr (hms, None))"
proof -
  have "re_split_from [] tm = [[] @ tm]"
    using assms by (rule re_split_from_none)
  then have "re_split_tz tm = [tm]"
    by (simp add: re_split_tz_def)
  then show ?thesis
    by (cases "parse_hms (py_split_on CHR '':'' tm)")
       (simp_all add: parse_time_def parse_tz_none err_bind_def)
qed

lemma parse_time_offset_suffix:
  assumes tm: "no_tz_sep tm"
    and sign: "sep = CHR ''+'' \<or> sep = CHR ''-''"
    and digits: "all_digits hh" "all_digits mm" "length hh = 2" "length mm = 2"
    and ints: "py_int hh = Inr h" "py_int mm = Inr m"
  shows "parse_time [dt, tm @ sep # hh @ CHR '':'' # mm]
         = err_bind (parse_hms (py_split_on CHR '':'' tm))
             (\<lambda>hms. Inr (hms, Some ((if sep = CHR ''-'' then - h else h) * 3600 + m * 60)))"
proof -
  have s: "is_tz_sep sep"
    using sign by (auto simp: is_tz_sep_def)
  have "\<not> is_tz_sep CHR '':''"
    by (simp add: is_tz_sep_def)
  then have z: "no_tz_sep (hh @ CHR '':'' # mm)"
    using all_digits_no_tz_sep[OF digits(1)] all_digits_no_tz_sep[OF digits(2)]
    by (simp add: no_tz_sep_def)
  have "re_split_from [] (tm @ sep # hh @ CHR '':'' # mm)
        = ([] @ tm) # [sep] # re_split_from [] (hh @ CHR '':'' # mm)"
    using tm s by (rule re_split_from_first)
  also have "re_split_from [] (hh @ CHR '':'' # mm) = [[] @ hh @ CHR '':'' # mm]"
    using z by (rule re_split_from_none)
  finally have entries: "re_split_tz (tm @ sep # hh @ CHR '':'' # mm)
                         = [tm, [sep], hh @ CHR '':'' # mm]"
    by (simp add: re_split_tz_def)
  show ?thesis
    by (cases "parse_hms (py_split_on CHR '':'' tm)")
       (simp_all add: parse_time_def entries parse_tz_offset[OF digits ints] err_bind_def Let_def)
qed

text \<open>
  The whole parse with an offset suffix, in terms of the parse without it: line 107 adds
  \<open>dateadd\<close>, which line 89 builds from the hours, negated after a minus sign (line 87),
  and the minutes as they are.
\<close>

lemma parse_date_exif_offset_suffix:
  assumes dt: "no_space dt" "dt \<noteq> []"
    and tm: "no_space tm" "no_tz_sep tm" "tm \<noteq> []"
    and sign: "sep = CHR ''+'' \<or> sep = CHR ''-''"
    and digits: "all_digits hh" "all_digits mm" "length hh = 2" "length mm = 2"
    and ints: "py_int hh = Inr h" "py_int mm = Inr m"
    and unadjusted: "parse_date_exif fmt_ok (Str (dt @ '' '' @ tm)) = Inr (Some t)"
  shows "parse_date_exif fmt_ok (Str (dt @ '' '' @ tm @ sep # hh @ '':'' @ mm))
         = err_bind (dt_add t ((if sep = CHR ''-'' then - h else h) * 3600 + m * 60))
             (\<lambda>r. Inr (Some r))"
proof -
  let ?sfx = "sep # hh @ CHR '':'' # mm"
  let ?delta = "(if sep = CHR ''-'' then - h else h) * 3600 + m * 60"
  have "\<not> py_isspace CHR '':''" "\<not> py_isspace CHR ''+''" "\<not> py_isspace CHR ''-''"
    by (simp_all add: py_isspace_def)
  then have ns: "no_space (tm @ ?sfx)"
    using sign tm(1) all_digits_no_space[OF digits(1)] all_digits_no_space[OF digits(2)]
    by (auto simp: no_space_append no_space_Cons)
  have e1: "py_split (py_strip (py_str (Str (dt @ CHR '' '' # tm)))) = [dt, tm]"
    using py_split_two_tokens[OF dt tm(1,3)] by simp
  have e2: "py_split (py_strip (py_str (Str (dt @ CHR '' '' # tm @ ?sfx)))) = [dt, tm @ ?sfx]"
    using py_split_two_tokens[OF dt ns] by simp
  note t1 = parse_time_no_suffix[OF tm(2), of dt]
  note t2 = parse_time_offset_suffix[OF tm(2) sign digits ints, of dt]
  from unadjusted have u: "parse_date_exif fmt_ok (Str (dt @ CHR '' '' # tm)) = Inr (Some t)"
    by simp
  have "parse_date_exif fmt_ok (Str (dt @ CHR '' '' # tm @ ?sfx))
        = err_bind (dt_add t ?delta) (\<lambda>r. Inr (Some r))"
    using u unfolding parse_date_exif_def e1 e2 t1 t2 Let_def
    by (auto simp: err_bind_def split: sum.splits if_splits prod.splits option.splits)
  then show ?thesis
    by simp
qed

text \<open>
  A suffix \<open>Z\<close> leaves an empty zone piece, which sets no adjustment (line 81).
\<close>

lemma parse_time_z_suffix:
  assumes "no_tz_sep tm"
  shows "parse_time [dt, tm @ ''Z'']
         = err_bind (parse_hms (py_split_on CHR '':'' tm)) (\<lambda>hms. Inr (hms, None))"
proof -
  have "is_tz_sep CHR ''Z''"
    by (simp add: is_tz_sep_def)
  with assms have "re_split_from [] (tm @ CHR ''Z'' # [])
                   = ([] @ tm) # [CHR ''Z''] # re_split_from [] []"
    by (rule re_split_from_first)
  then have entries: "re_split_tz (tm @ ''Z'') = [tm, ''Z'', []]"
    by (simp add: re_split_tz_def)
  have zone: "parse_tz [tm, ''Z'', []] = Inr None"
    by (simp add: parse_tz_def py_split_on_def)
  show ?thesis
    by (cases "parse_hms (py_split_on CHR '':'' tm)")
       (simp_all add: parse_time_def entries zone err_bind_def Let_def)
qed

lemma parse_date_exif_z_suffix:
  assumes dt: "no_space dt" "dt \<noteq> []"
    and tm: "no_space tm" "no_tz_sep tm" "tm \<noteq> []"
    and unadjusted: "parse_date_exif fmt_ok (Str (dt @ '' '' @ tm)) = Inr (Some t)"
  shows "parse_date_exif fmt_ok (Str (dt @ '' '' @ tm @ ''Z'')) = Inr (Some t)"
proof -
  have "\<not> py_isspace CHR ''Z''"
    by (simp add: py_isspace_def)
  then have ns: "no_space (tm @ ''Z'')"
    using tm(1) by (simp add: no_space_append no_space_Cons no_space_Nil)
  have e1: "py_split (py_strip (py_str (Str (dt @ CHR '' '' # tm)))) = [dt, tm]"
    using py_split_two_tokens[OF dt tm(1,3)] by simp
  have e2: "py_split (py_strip (py_str (Str (dt @ CHR '' '' # tm @ ''Z'')))) = [dt, tm @ ''Z'']"
    using py_split_two_tokens[OF dt ns] by simp
  note t1 = parse_time_no_suffix[OF tm(2), of dt]
  note t2 = parse_time_z_suffix[OF tm(2), of dt]
  from unadjusted have u: "parse_date_exif fmt_ok (Str (dt @ CHR '' '' # tm)) = Inr (Some t)"
    by simp
  have "parse_date_exif fmt_ok (Str (dt @ CHR '' '' # tm @ ''Z''))
        = parse_date_exif fmt_ok (Str (dt @ CHR '' '' # tm))"
    unfolding parse_date_exif_def e1 e2 t1 t2 Let_def by simp
  with u show ?thesis
    by simp
qed

text \<open>
  Claim C3: the parser does not bring the time to a common instant; it moves the time
  parsed without the suffix by the offset, in the direction of its sign. For a text
  \<open>DATE TIME\<close> that parses to the local time \<open>t\<close>, the text with the suffix \<open>+HH:MM\<close> of
  two digits each parses to \<open>t\<close> plus \<open>HH\<close> hours and \<open>MM\<close> minutes, the text with the
  suffix \<open>-HH:00\<close> to \<open>t\<close> minus \<open>HH\<close> hours, and the text with the suffix \<open>Z\<close> to \<open>t\<close>
  itself. The sum leaving the years 1 to 9999 raises OverflowError, which is the
  \<open>err_bind\<close> of the statement.
\<close>

theorem parse_date_exif_offset_is_added:
  assumes dt: "no_space dt" "dt \<noteq> []"
    and tm: "no_space tm" "no_tz_sep tm" "tm \<noteq> []"
    and sign: "sep = CHR ''+'' \<or> sep = CHR ''-'' \<and> m = 0"
    and digits: "all_digits hh" "all_digits mm" "length hh = 2" "length mm = 2"
    and ints: "py_int hh = Inr h" "py_int mm = Inr m"
    and unadjusted: "parse_date_exif fmt_ok (Str (dt @ '' '' @ tm)) = Inr (Some t)"
  shows "parse_date_exif fmt_ok (Str (dt @ '' '' @ tm @ sep # hh @ '':'' @ mm))
           = err_bind (if sep = CHR ''+'' then dt_add t (h * 3600 + m * 60)
                       else dt_sub t (h * 3600 + m * 60))
               (\<lambda>r. Inr (Some r))
         \<and> parse_date_exif fmt_ok (Str (dt @ '' '' @ tm @ ''Z'')) = Inr (Some t)"
proof -
  from sign have s: "sep = CHR ''+'' \<or> sep = CHR ''-''"
    by auto
  have delta: "(if sep = CHR ''+'' then dt_add t (h * 3600 + m * 60)
                else dt_sub t (h * 3600 + m * 60))
               = dt_add t ((if sep = CHR ''-'' then - h else h) * 3600 + m * 60)"
    using sign by (auto simp: dt_sub_def)
  have a: "parse_date_exif fmt_ok (Str (dt @ '' '' @ tm @ sep # hh @ '':'' @ mm))
           = err_bind (if sep = CHR ''+'' then dt_add t (h * 3600 + m * 60)
                       else dt_sub t (h * 3600 + m * 60))
               (\<lambda>r. Inr (Some r))"
    unfolding delta
    by (rule parse_date_exif_offset_suffix[OF dt tm s digits ints unadjusted])
  have b: "parse_date_exif fmt_ok (Str (dt @ '' '' @ tm @ ''Z'')) = Inr (Some t)"
    by (rule parse_date_exif_z_suffix[OF dt tm unadjusted])
  from a b show ?thesis
    by (intro conjI)
qed

text \<open>
  At \<open>10:30:00+05:30\<close> the result is \<open>16:00:00\<close>, at \<open>10:30:00-05:00\<close> it is \<open>05:30:00\<close>,
  and at \<open>10:30:00Z\<close> it is \<open>10:30:00\<close>.
\<close>

theorem parse_date_exif_offset_is_added_witness:
  "parse_date_exif strftime_py3 (Str ''2020:01:15 10:30:00+05:30'')
     = Inr (Some \<lparr>year = 2020, month = 1, day = 15, hour = 16, minute = 0, second = 0,
                   microsecond = 0\<rparr>)
   \<and> parse_date_exif strftime_py3 (Str ''2020:01:15 10:30:00-05:00'')
     = Inr (Some \<lparr>year = 2020, month = 1, day = 15, hour = 5, minute = 30, second = 0,
                   microsecond = 0\<rparr>)
   \<and> parse_date_exif strftime_py3 (Str ''2020:01:15 10:30:00Z'')
     = Inr (Some \<lparr>year = 2020, month = 1, day = 15, hour = 10, minute = 30, second = 0,
                   microsecond = 0\<rparr>)"
proof -
  let ?t = "\<lparr>year = 2020, month = 1, day = 15, hour = 10, minute = 30, second = 0,
             microsecond = 0\<rparr>"
  have dt: "no_space ''2020:01:15''" "''2020:01:15'' \<noteq> []"
    by code_simp+
  have tm: "no_space ''10:30:00''" "no_tz_sep ''10:30:00''" "''10:30:00'' \<noteq> []"
    by code_simp+
  have plus_digits: "all_digits ''05''" "all_digits ''30''" "length ''05'' = 2"
    "length ''30'' = 2"
    by code_simp+
  have minus_digits: "all_digits ''05''" "all_digits ''00''" "length ''05'' = 2"
    "length ''00'' = 2"
    by code_simp+
  have plus_ints: "py_int ''05'' = Inr 5" "py_int ''30'' = Inr 30"
    by code_simp+
  have minus_ints: "py_int ''05'' = Inr 5" "py_int ''00'' = Inr 0"
    by code_simp+
  have unadjusted: "parse_date_exif strftime_py3 (Str (''2020:01:15'' @ '' '' @ ''10:30:00''))
                    = Inr (Some ?t)"
    by code_simp
  have later: "err_bind (dt_add ?t (5 * 3600 + 30 * 60)) (\<lambda>r. Inr (Some r))
               = Inr (Some \<lparr>year = 2020, month = 1, day = 15, hour = 16, minute = 0,
                             second = 0, microsecond = 0\<rparr>)"
    by code_simp
  have earlier: "err_bind (dt_sub ?t (5 * 3600 + 0 * 60)) (\<lambda>r. Inr (Some r))
                 = Inr (Some \<lparr>year = 2020, month = 1, day = 15, hour = 5, minute = 30,
                               second = 0, microsecond = 0\<rparr>)"
    by code_simp
  have plus: "CHR ''+'' = CHR ''+'' \<or> CHR ''+'' = CHR ''-'' \<and> (30::int) = 0"
    by simp
  have minus: "CHR ''-'' = CHR ''+'' \<or> CHR ''-'' = CHR ''-'' \<and> (0::int) = 0"
    by simp
  note p = parse_date_exif_offset_is_added[OF dt tm plus plus_digits plus_ints unadjusted]
  note q = parse_date_exif_offset_is_added[OF dt tm minus minus_digits minus_ints unadjusted]
  have a: "parse_date_exif strftime_py3 (Str ''2020:01:15 10:30:00+05:30'')
           = Inr (Some \<lparr>year = 2020, month = 1, day = 15, hour = 16, minute = 0, second = 0,
                         microsecond = 0\<rparr>)"
    using p[THEN conjunct1] later by simp
  have b: "parse_date_exif strftime_py3 (Str ''2020:01:15 10:30:00-05:00'')
           = Inr (Some \<lparr>year = 2020, month = 1, day = 15, hour = 5, minute = 30, second = 0,
                         microsecond = 0\<rparr>)"
    using q[THEN conjunct1] earlier by simp
  have c: "parse_date_exif strftime_py3 (Str ''2020:01:15 10:30:00Z'')
           = Inr (Some ?t)"
    using p[THEN conjunct2] by simp
  from a b c show ?thesis
    by (intro conjI)
qed

text \<open>
  After a minus sign only the hours are negated (line 87) and the minutes of the suffix
  are added: at \<open>10:30:00-05:30\<close> the result is \<open>06:00:00\<close>, five hours back and thirty
  minutes on, where the offset subtracted gives \<open>05:00:00\<close>; and \<open>-00:30\<close> moves the time
  as \<open>+00:30\<close> does.
\<close>

lemma parse_date_exif_minus_offset_adds_minutes:
  "parse_date_exif strftime_py3 (Str ''2020:01:15 10:30:00-05:30'')
     = Inr (Some \<lparr>year = 2020, month = 1, day = 15, hour = 6, minute = 0, second = 0,
                   microsecond = 0\<rparr>)
   \<and> parse_date_exif strftime_py3 (Str ''2020:01:15 10:30:00-00:30'')
     = parse_date_exif strftime_py3 (Str ''2020:01:15 10:30:00+00:30'')"
  by code_simp

text \<open>
  The two texts \<open>10:30:00+02:00\<close> and \<open>08:30:00Z\<close> of the same instant do not parse to
  the same value: the first gives 12:30:00, the offset being added, and the second
  08:30:00, the suffix \<open>Z\<close> setting no adjustment.
\<close>

theorem parse_date_exif_plus_offset_is_not_utc:
  "parse_date_exif strftime_py3 (Str ''2020:01:15 10:30:00+02:00'')
     = Inr (Some \<lparr>year = 2020, month = 1, day = 15, hour = 12, minute = 30, second = 0,
                   microsecond = 0\<rparr>)
   \<and> parse_date_exif strftime_py3 (Str ''2020:01:15 08:30:00Z'')
     = Inr (Some \<lparr>year = 2020, month = 1, day = 15, hour = 8, minute = 30, second = 0,
                   microsecond = 0\<rparr>)"
  by code_simp

end
